theory Spec2Isabelle
  imports Complex_Main "HOL-Library.Word"
begin

section \<open>Machine types of the reader\<close>

text \<open>
  \<^verbatim>\<open>size_t\<close> is the 64-bit unsigned integer of the build target, \<^verbatim>\<open>int\<close> the 32-bit
  signed one (read with \<open>sint\<close>). Arithmetic on both wraps, as \<open>word\<close> arithmetic does.
\<close>

type_synonym size_t = "64 word"
type_synonym cint = "32 word"

text \<open>
  Every call site of \<^verbatim>\<open>RuntimeError\<close> in the reader is one constructor of \<open>message\<close>.
  Operations whose behaviour C++ leaves undefined (integer division by zero, a vector
  index out of range, a float that does not fit the \<^verbatim>\<open>int\<close> it is cast to) are
  separate results: the code raises nothing there, and it does not return either.
\<close>

datatype message =
    EpochNotFinished        \<comment> \<open>New epoch started without reading all samples from previous epoch\<close>
  | RankChanged             \<comment> \<open>Rank changed in image dataset reader.\<close>
  | WorkersChanged          \<comment> \<open>Number of workers changed in image dataset reader.\<close>
  | MinibatchNotDivisible   \<comment> \<open>Minibatch size not divisible by number of workers\<close>
  | MinibatchMismatch       \<comment> \<open>Mismatch between minibatch size and demanded sample count\<close>
  | MoreWorkersThanSamples  \<comment> \<open>Greater number of workers than samples in minibatch.\<close>
  | AppendMoreThanOne       \<comment> \<open>Appending more than one sample to the last minibatch\<close>
  | DenseWithIgnore         \<comment> \<open>Dense input cannot have ignore label.\<close>
  | MissingIgnoreStream     \<comment> \<open>Invalid number of input streams\<close>
  | UnexpectedSparseCount   \<comment> \<open>Unexpected sparse data count\<close>
  | InvalidChannel          \<comment> \<open>Invalid channel value in sparse input stream.\<close>
  | BlobNotFound            \<comment> \<open>Blob with name ... not found.\<close>

datatype undefined_op = DivisionByZero | IndexOutOfRange | FloatOutOfIntRange

datatype error = RuntimeError message | Undefined undefined_op

fun is_RuntimeError :: "error + 'a \<Rightarrow> bool" where
  "is_RuntimeError (Inl (RuntimeError m)) = True"
| "is_RuntimeError (Inl (Undefined u)) = False"
| "is_RuntimeError (Inr x) = False"

section \<open>Streams, the example adapter and sequences\<close>

text \<open>
  \<^verbatim>\<open>IndexType\<close> is declared outside the reader's source file; it is the 32-bit index
  type of sparse data. A \<^verbatim>\<open>float\<close> is modelled by the number it holds: the reader
  only moves floats, compares them after a cast to \<^verbatim>\<open>int\<close> and writes the constants
  0 and 1 (NaN and the infinities are not represented).
\<close>

type_synonym IndexType = "32 word"
type_synonym float = real

text \<open>
  \<^verbatim>\<open>static_cast<int>(x)\<close> truncates towards zero; it is undefined when the truncated
  value is not an \<^verbatim>\<open>int\<close>.
\<close>

definition float_to_int :: "float \<Rightarrow> cint option" where
  "float_to_int x =
     (let t = (if 0 \<le> x then \<lfloor>x\<rfloor> else \<lceil>x\<rceil>)
      in if - (2 ^ 31) \<le> t \<and> t < 2 ^ 31 then Some (word_of_int t) else None)"

text \<open>\<^verbatim>\<open>array<int, 3>\<close> and \<^verbatim>\<open>std::reverse\<close> on it.\<close>

type_synonym shape3 = "cint \<times> cint \<times> cint"

fun reverse3 :: "'a \<times> 'a \<times> 'a \<Rightarrow> 'a \<times> 'a \<times> 'a" where
  "reverse3 (a, b, c) = (c, b, a)"

text \<open>
  A \<^verbatim>\<open>TensorShape\<close> of three dimensions, as every shape of the reader is. Its
  constructor takes \<^verbatim>\<open>size_t\<close> arguments, so an \<^verbatim>\<open>int\<close> is sign-extended.
\<close>

type_synonym TensorShape = "size_t \<times> size_t \<times> size_t"

fun TensorShape_of :: "shape3 \<Rightarrow> TensorShape" where
  "TensorShape_of (a, b, c) = (scast a, scast b, scast c)"

text \<open>
  The stream descriptors of the configuration, declared outside the reader's source
  file, with the fields the reader reads. \<^verbatim>\<open>ignoreLabel\<close> is compared with an \<^verbatim>\<open>int\<close>
  and is an \<^verbatim>\<open>int\<close> here.
\<close>

datatype StorageType = dense | sparse_csc

record IgnoreStreamDescriptor =
  ignoreStreamName :: string
  ignoreLabel :: cint

record StreamDescriptor =
  name :: string
  datasetName :: string
  datasetStorageType :: StorageType
  dimension :: cint
  ignoreStream :: "IgnoreStreamDescriptor option"

text \<open>The fields of a \<^verbatim>\<open>StreamDescription\<close> that \<^verbatim>\<open>GetNextSequences\<close> reads.\<close>

record StreamDescription =
  m_storageType :: StorageType
  m_streamLayout :: TensorShape  \<comment> \<open>\<^verbatim>\<open>m_sampleLayout\<close> of the stream description\<close>

record ImageDatasetExample =
  m_blobNames :: "string list"
  m_blobs :: "float list list"
  m_blob_shapes :: "shape3 list"

text \<open>The search loop of \<^verbatim>\<open>BlobIndexFromName\<close>, from index \<open>ib\<close> on.\<close>

fun BlobIndexLoop :: "string list \<Rightarrow> string \<Rightarrow> nat \<Rightarrow> nat option" where
  "BlobIndexLoop [] blobName ib = None"
| "BlobIndexLoop (n # ns) blobName ib =
     (if blobName = n then Some ib else BlobIndexLoop ns blobName (ib + 1))"

definition BlobIndexFromName :: "ImageDatasetExample \<Rightarrow> string \<Rightarrow> error + nat" where
  "BlobIndexFromName this blobName =
     (case BlobIndexLoop (m_blobNames this) blobName 0 of
        None \<Rightarrow> Inl (RuntimeError BlobNotFound)
      | Some index \<Rightarrow> Inr index)"

definition GetBlobShape :: "ImageDatasetExample \<Rightarrow> string \<Rightarrow> error + shape3" where
  "GetBlobShape this blobName =
     (case BlobIndexFromName this blobName of
        Inl e \<Rightarrow> Inl e
      | Inr index \<Rightarrow>
          if index < length (m_blob_shapes this) then Inr (m_blob_shapes this ! index)
          else Inl (Undefined IndexOutOfRange))"

text \<open>
  \<^verbatim>\<open>SwapBlobData\<close> exchanges the blob's vector with \<open>outer\<close>: the result is the adapter
  after the swap and the new contents of \<open>outer\<close>.
\<close>

definition SwapBlobData ::
  "ImageDatasetExample \<Rightarrow> string \<Rightarrow> float list \<Rightarrow> error + (ImageDatasetExample \<times> float list)" where
  "SwapBlobData this blobName outer =
     (case BlobIndexFromName this blobName of
        Inl e \<Rightarrow> Inl e
      | Inr index \<Rightarrow>
          if index < length (m_blobs this)
          then Inr (this\<lparr>m_blobs := (m_blobs this)[index := outer]\<rparr>, m_blobs this ! index)
          else Inl (Undefined IndexOutOfRange))"

text \<open>
  The sequence classes. \<^verbatim>\<open>m_chunk\<close> is always null and \<^verbatim>\<open>m_indices\<close> always points
  at \<^verbatim>\<open>m_indicesMemory\<close>; neither is a field here.
\<close>

record SequenceData =
  m_id :: size_t
  m_numberOfSamples :: nat

record DenseSequenceDataIds = SequenceData +
  m_sampleLayout :: TensorShape
  m_ownedData :: "float list"

record SparseSequenceDataIds = SequenceData +
  m_nnzCounts :: "IndexType list"
  m_totalNnzCount :: IndexType
  m_indicesMemory :: "IndexType list"
  m_valuesMemory :: "float list"

datatype SequenceDataPtr =
    DenseSequence DenseSequenceDataIds
  | SparseSequence SparseSequenceDataIds

text \<open>\<^verbatim>\<open>m_data[istr][ismpl]\<close>; a null \<^verbatim>\<open>shared_ptr\<close> is \<open>None\<close>.\<close>

record Sequences =
  m_data :: "SequenceDataPtr option list list"
  m_endOfEpoch :: bool

text \<open>
  The dataset loader is outside the reader's source file. Its state is a type
  parameter, and the two methods the reader calls after construction are parameters:
  \<open>GetExamplesCount\<close> gives the value of
  \<^verbatim>\<open>static_cast<size_t>(m_dsLoader->GetExamplesCount())\<close>, and \<open>GetExample\<close> refills the
  adapter and advances the loader.
\<close>

record 'l IDsLoader =
  GetExamplesCount :: "'l \<Rightarrow> size_t"
  GetExample :: "'l \<Rightarrow> ImageDatasetExample \<Rightarrow> 'l \<times> ImageDatasetExample"

section \<open>Epoch state and StartEpoch\<close>

record EpochConfiguration =
  c_numberOfWorkers :: size_t
  c_workerRank :: size_t
  c_minibatchSizeInSamples :: size_t
  c_totalEpochSizeInSamples :: size_t

record 'l DataSource =
  m_inputStreams :: "StreamDescription list"
  m_streamDescriptors :: "StreamDescriptor list"
  m_dsLoader :: 'l
  m_example :: ImageDatasetExample
  m_minibatchSize :: size_t
  m_appendLastMinibatch :: bool
  m_workerRank :: size_t
  m_numberOfWorkers :: size_t
  m_epochSize :: size_t
  m_currEpochSampleCount :: size_t
  m_epochOverride :: bool

text \<open>
  \<^verbatim>\<open>requestDataSize\<close> is declared in a header outside the reader's source file; it is a
  parameter here.
\<close>

definition UseAllExamplesFromDatasetForEpoch :: "size_t \<Rightarrow> EpochConfiguration \<Rightarrow> bool" where
  "UseAllExamplesFromDatasetForEpoch requestDataSize config =
     (c_totalEpochSizeInSamples config = requestDataSize)"

text \<open>
  Lines 383-400 of \<^verbatim>\<open>StartEpoch\<close>: the epoch size of the whole job. \<open>examplesCount\<close> is
  the value of \<^verbatim>\<open>static_cast<size_t>(m_dsLoader->GetExamplesCount())\<close>.
\<close>

definition globalEpochSize ::
  "size_t \<Rightarrow> size_t \<Rightarrow> EpochConfiguration \<Rightarrow> bool \<Rightarrow> size_t \<Rightarrow> size_t" where
  "globalEpochSize requestDataSize examplesCount config epochOverride numberOfWorkers =
     (if UseAllExamplesFromDatasetForEpoch requestDataSize config then
        (if epochOverride then numberOfWorkers * examplesCount else examplesCount)
      else c_totalEpochSizeInSamples config)"

text \<open>
  Lines 403-430: this reader's portion of an epoch of \<open>epochSize\<close> samples, and the
  flag \<^verbatim>\<open>m_appendLastMinibatch\<close>. Both divisors are nonzero where it is called.
\<close>

definition thisReaderPortion :: "size_t \<Rightarrow> size_t \<Rightarrow> size_t \<Rightarrow> size_t \<Rightarrow> size_t \<times> bool" where
  "thisReaderPortion epochSize minibatchSize numberOfWorkers workerRank =
     (let appendLastMinibatch = False;
          thisReaderEpochSize = ((epochSize div minibatchSize) * minibatchSize) div numberOfWorkers
      in if epochSize mod minibatchSize \<noteq> 0 then
           (let partOfMiniBatch = (epochSize mod minibatchSize) div numberOfWorkers;
                allWorkersActiveInLastMinibatch = (partOfMiniBatch \<noteq> 0);
                thisReaderEpochSize = thisReaderEpochSize + partOfMiniBatch
            in if (epochSize mod minibatchSize) mod numberOfWorkers \<noteq> 0 then
                 (if workerRank < (epochSize mod minibatchSize) mod numberOfWorkers then
                    (thisReaderEpochSize + 1,
                     if \<not> allWorkersActiveInLastMinibatch then True else appendLastMinibatch)
                  else (thisReaderEpochSize, appendLastMinibatch))
               else (thisReaderEpochSize, appendLastMinibatch))
         else (thisReaderEpochSize, appendLastMinibatch))"

definition StartEpoch ::
  "size_t \<Rightarrow> 'l IDsLoader \<Rightarrow> EpochConfiguration \<Rightarrow> 'l DataSource \<Rightarrow> error + 'l DataSource" where
  "StartEpoch requestDataSize loader config this =
     (if m_epochSize this \<noteq> m_currEpochSampleCount this then Inl (RuntimeError EpochNotFinished)
      else if m_workerRank this \<noteq> c_workerRank config then Inl (RuntimeError RankChanged)
      else if m_numberOfWorkers this \<noteq> c_numberOfWorkers config then Inl (RuntimeError WorkersChanged)
      else
        (let minibatchSize = c_minibatchSizeInSamples config in
         if m_numberOfWorkers this = 0 then Inl (Undefined DivisionByZero)
         else if minibatchSize mod m_numberOfWorkers this \<noteq> 0
           then Inl (RuntimeError MinibatchNotDivisible)
         else
           (let epochSize = globalEpochSize requestDataSize
                              (GetExamplesCount loader (m_dsLoader this)) config
                              (m_epochOverride this) (m_numberOfWorkers this) in
            if minibatchSize = 0 then Inl (Undefined DivisionByZero)
            else
              (let (thisReaderEpochSize, appendLastMinibatch) =
                     thisReaderPortion epochSize minibatchSize (m_numberOfWorkers this)
                       (m_workerRank this)
               in Inr (this\<lparr>m_minibatchSize := minibatchSize,
                            m_appendLastMinibatch := appendLastMinibatch,
                            m_epochSize := thisReaderEpochSize,
                            m_currEpochSampleCount := 0\<rparr>)))))"

section \<open>GetNextSequences\<close>

text \<open>
  Lines 475-506: the number of samples this call delivers and the end-of-epoch flag
  (which a fresh \<^verbatim>\<open>Sequences\<close> holds as false).
\<close>

definition minibatchSampleCount :: "'l DataSource \<Rightarrow> size_t \<Rightarrow> error + (size_t \<times> bool)" where
  "minibatchSampleCount this totalSampleCount =
     (if totalSampleCount \<noteq> m_minibatchSize this then Inl (RuntimeError MinibatchMismatch)
      else if m_numberOfWorkers this = 0 then Inl (Undefined DivisionByZero)
      else
        (let sampleCount = totalSampleCount div m_numberOfWorkers this in
         if sampleCount = 0 then Inl (RuntimeError MoreWorkersThanSamples)
         else
           (let remainingEpochSamples = m_epochSize this - m_currEpochSampleCount this in
            if m_appendLastMinibatch this \<and> remainingEpochSamples \<le> 2 * sampleCount then
              (if remainingEpochSamples \<noteq> sampleCount + 1
               then Inl (RuntimeError AppendMoreThanOne)
               else Inr (remainingEpochSamples, True))
            else if \<not> m_appendLastMinibatch this \<and> remainingEpochSamples \<le> sampleCount then
              Inr (remainingEpochSamples, True)
            else Inr (sampleCount, False))))"

text \<open>The assignment \<^verbatim>\<open>sequences.m_data[istr][ismpl] = s\<close>.\<close>

definition setSequence ::
  "SequenceDataPtr option list list \<Rightarrow> nat \<Rightarrow> nat \<Rightarrow> SequenceDataPtr \<Rightarrow>
   error + SequenceDataPtr option list list" where
  "setSequence data istr ismpl s =
     (if istr < length data \<and> ismpl < length (data ! istr)
      then Inr (data[istr := (data ! istr)[ismpl := Some s]])
      else Inl (Undefined IndexOutOfRange))"

text \<open>Lines 532-557: a dense stream. The new sequence's vector is empty before the swap.\<close>

definition denseStream ::
  "StreamDescriptor \<Rightarrow> nat \<Rightarrow> nat \<Rightarrow> ImageDatasetExample \<Rightarrow> SequenceDataPtr option list list \<Rightarrow>
   error + (nat \<times> ImageDatasetExample \<times> SequenceDataPtr option list list)" where
  "denseStream streamDescriptor ismpl istr example data =
     (if ignoreStream streamDescriptor \<noteq> None then Inl (RuntimeError DenseWithIgnore)
      else
        (case GetBlobShape example (datasetName streamDescriptor) of
           Inl e \<Rightarrow> Inl e
         | Inr blobShape \<Rightarrow>
             (let shape = reverse3 blobShape in
              case SwapBlobData example (datasetName streamDescriptor) [] of
                Inl e \<Rightarrow> Inl e
              | Inr (example', ownedData) \<Rightarrow>
                  (let newSequenceDataDense =
                         \<lparr>m_id = of_nat ismpl, m_numberOfSamples = 1,
                          m_sampleLayout = TensorShape_of shape, m_ownedData = ownedData\<rparr>
                   in case setSequence data istr ismpl (DenseSequence newSequenceDataDense) of
                        Inl e \<Rightarrow> Inl e
                      | Inr data' \<Rightarrow> Inr (istr + 1, example', data')))))"

text \<open>
  Lines 617-639: the loop over the labels, from position \<open>inz\<close> on, with the labels not
  yet visited as a list. \<open>ignoreDescriptor\<close> is \<^verbatim>\<open>streamDescriptor.ignoreStream\<close>, and
  \<open>ignoreBuffer\<close> is \<open>None\<close> for the null pointer.
\<close>

fun labelLoop ::
  "IgnoreStreamDescriptor option \<Rightarrow> size_t \<Rightarrow> size_t \<Rightarrow> float list \<Rightarrow> nat \<Rightarrow>
   float list option \<Rightarrow> IndexType list \<Rightarrow> error + (float list option \<times> IndexType list)" where
  "labelLoop ignoreDescriptor spatialSize outChannels [] inz ignoreBuffer indicesMemory =
     Inr (ignoreBuffer, indicesMemory)"
| "labelLoop ignoreDescriptor spatialSize outChannels (x # rest) inz ignoreBuffer indicesMemory =
     (case float_to_int x of
        None \<Rightarrow> Inl (Undefined FloatOutOfIntRange)
      | Some c \<Rightarrow>
          if ignoreBuffer \<noteq> None \<and> Some c = map_option ignoreLabel ignoreDescriptor then
            (if inz < length (the ignoreBuffer) \<and> inz < length indicesMemory then
               labelLoop ignoreDescriptor spatialSize outChannels rest (inz + 1)
                 (Some ((the ignoreBuffer)[inz := 0]))
                 (indicesMemory[inz := ucast (of_nat inz :: size_t)])
             else Inl (Undefined IndexOutOfRange))
          else if c <s 0 \<or> scast c > outChannels - 1 then Inl (RuntimeError InvalidChannel)
          else
            (let index = scast c * spatialSize + of_nat inz in
             if inz < length indicesMemory then
               labelLoop ignoreDescriptor spatialSize outChannels rest (inz + 1) ignoreBuffer
                 (indicesMemory[inz := ucast index])
             else Inl (Undefined IndexOutOfRange)))"

text \<open>Lines 561-587: the mask sequence of a sparse stream with an ignore sub-stream.\<close>

definition ignoreSequence ::
  "'l DataSource \<Rightarrow> StreamDescriptor \<Rightarrow> nat \<Rightarrow> nat \<Rightarrow> SequenceDataPtr option list list \<Rightarrow>
   error + (DenseSequenceDataIds option \<times> SequenceDataPtr option list list)" where
  "ignoreSequence this streamDescriptor ismpl istr data =
     (if ignoreStream streamDescriptor \<noteq> None then
        (if istr + 1 \<ge> length (m_inputStreams this) then Inl (RuntimeError MissingIgnoreStream)
         else
           (case m_streamLayout (m_inputStreams this ! (istr + 1)) of
              (ignoreDims0, ignoreDims1, ignoreDims2) \<Rightarrow>
                (let newSequenceDataDenseIgnore =
                       \<lparr>m_id = of_nat ismpl, m_numberOfSamples = 1,
                        m_sampleLayout = (ignoreDims0, ignoreDims1, ignoreDims2),
                        m_ownedData = replicate (unat (ignoreDims0 * ignoreDims1 * ignoreDims2)) 1\<rparr>
                 in case setSequence data (istr + 1) ismpl (DenseSequence newSequenceDataDenseIgnore) of
                      Inl e \<Rightarrow> Inl e
                    | Inr data' \<Rightarrow> Inr (Some newSequenceDataDenseIgnore, data'))))
      else Inr (None, data))"

text \<open>
  Lines 561-651: a sparse stream. \<^verbatim>\<open>ignoreBuffer\<close> points into the mask sequence that
  \<^verbatim>\<open>m_data\<close> already holds, so what the label loop writes through it is written
  to that sequence.
\<close>

definition sparseStream ::
  "'l DataSource \<Rightarrow> StreamDescriptor \<Rightarrow> nat \<Rightarrow> nat \<Rightarrow> ImageDatasetExample \<Rightarrow>
   SequenceDataPtr option list list \<Rightarrow>
   error + (nat \<times> ImageDatasetExample \<times> SequenceDataPtr option list list)" where
  "sparseStream this streamDescriptor ismpl istr example data =
     (case ignoreSequence this streamDescriptor ismpl istr data of
        Inl e \<Rightarrow> Inl e
      | Inr (ignoreSeq, data1) \<Rightarrow>
          (case m_streamLayout (m_inputStreams this ! istr) of
             (dims0, dims1, dims2) \<Rightarrow>
               (case SwapBlobData example (datasetName streamDescriptor) [] of
                  Inl e \<Rightarrow> Inl e
                | Inr (example', blob) \<Rightarrow>
                    if (of_nat (length blob) :: size_t) \<noteq> dims0 * dims1
                    then Inl (RuntimeError UnexpectedSparseCount)
                    else
                      (let spatialSize = dims0 * dims1;
                           outChannels = dims2
                       in case labelLoop (ignoreStream streamDescriptor) spatialSize outChannels
                                 blob 0 (map_option m_ownedData ignoreSeq)
                                 (replicate (length blob) 0) of
                            Inl e \<Rightarrow> Inl e
                          | Inr (ignoreBuffer, indicesMemory) \<Rightarrow>
                              (let newSequenceDataSparse =
                                     \<lparr>m_id = of_nat ismpl, m_numberOfSamples = 1,
                                      m_nnzCounts = [ucast (of_nat (length blob) :: size_t)],
                                      m_totalNnzCount = ucast (of_nat (length blob) :: size_t),
                                      m_indicesMemory = indicesMemory,
                                      m_valuesMemory = replicate (length blob) 1\<rparr>
                               in case (case (ignoreSeq, ignoreBuffer) of
                                          (Some s, Some b) \<Rightarrow>
                                            setSequence data1 (istr + 1) ismpl
                                              (DenseSequence (s\<lparr>m_ownedData := b\<rparr>))
                                        | _ \<Rightarrow> Inr data1) of
                                    Inl e \<Rightarrow> Inl e
                                  | Inr data2 \<Rightarrow>
                                      (case setSequence data2 istr ismpl
                                              (SparseSequence newSequenceDataSparse) of
                                         Inl e \<Rightarrow> Inl e
                                       | Inr data3 \<Rightarrow>
                                           Inr (if ignoreStream streamDescriptor \<noteq> None
                                                then istr + 2 else istr + 1,
                                                example', data3)))))))"

text \<open>
  One round of the loop over the streams (lines 524-652), entered with
  \<open>istr < length (m_inputStreams this)\<close>: the next values of \<^verbatim>\<open>istr\<close> and
  \<^verbatim>\<open>iStreamDesc\<close>, the adapter and \<^verbatim>\<open>m_data\<close>.
\<close>

definition streamStep ::
  "'l DataSource \<Rightarrow> nat \<Rightarrow> nat \<Rightarrow> nat \<Rightarrow> ImageDatasetExample \<Rightarrow> SequenceDataPtr option list list \<Rightarrow>
   error + (nat \<times> nat \<times> ImageDatasetExample \<times> SequenceDataPtr option list list)" where
  "streamStep this ismpl istr iStreamDesc example data =
     (if iStreamDesc < length (m_streamDescriptors this) then
        (let streamDescriptor = m_streamDescriptors this ! iStreamDesc in
         case (if m_storageType (m_inputStreams this ! istr) = dense
               then denseStream streamDescriptor ismpl istr example data
               else sparseStream this streamDescriptor ismpl istr example data) of
           Inl e \<Rightarrow> Inl e
         | Inr (istr', example', data') \<Rightarrow> Inr (istr', iStreamDesc + 1, example', data'))
      else Inl (Undefined IndexOutOfRange))"

function streamLoop ::
  "'l DataSource \<Rightarrow> nat \<Rightarrow> nat \<Rightarrow> nat \<Rightarrow> ImageDatasetExample \<Rightarrow> SequenceDataPtr option list list \<Rightarrow>
   error + (ImageDatasetExample \<times> SequenceDataPtr option list list)" where
  "streamLoop this ismpl istr iStreamDesc example data =
     (if istr < length (m_inputStreams this) then
        (case streamStep this ismpl istr iStreamDesc example data of
           Inl e \<Rightarrow> Inl e
         | Inr (istr', iStreamDesc', example', data') \<Rightarrow>
             streamLoop this ismpl istr' iStreamDesc' example' data')
      else Inr (example, data))"
  by pat_completeness auto
termination
  by (relation "measure (\<lambda>(this, ismpl, istr, iStreamDesc, example, data).
                  length (m_inputStreams this) - istr)")
     (auto simp: streamStep_def denseStream_def sparseStream_def Let_def
           split: if_splits sum.splits prod.splits)

text \<open>
  Lines 517-656: the loop over the samples, with \<open>n\<close> samples still to fill; after the
  streams of a sample the loader refills the adapter.
\<close>

fun sampleLoop ::
  "'l IDsLoader \<Rightarrow> 'l DataSource \<Rightarrow> nat \<Rightarrow> nat \<Rightarrow> 'l \<Rightarrow> ImageDatasetExample \<Rightarrow>
   SequenceDataPtr option list list \<Rightarrow>
   error + ('l \<times> ImageDatasetExample \<times> SequenceDataPtr option list list)" where
  "sampleLoop loader this 0 ismpl dsLoader example data = Inr (dsLoader, example, data)"
| "sampleLoop loader this (Suc n) ismpl dsLoader example data =
     (case streamLoop this ismpl 0 0 example data of
        Inl e \<Rightarrow> Inl e
      | Inr (example', data') \<Rightarrow>
          (case GetExample loader dsLoader example' of
             (dsLoader', example'') \<Rightarrow>
               sampleLoop loader this n (ismpl + 1) dsLoader' example'' data'))"

text \<open>
  \<^verbatim>\<open>GetNextSequences\<close>. The counter is advanced by \<^verbatim>\<open>static_cast<int>(sampleCount)\<close>:
  the low 32 bits of \<open>sampleCount\<close>, sign-extended in the addition to a \<^verbatim>\<open>size_t\<close>.
\<close>

definition GetNextSequences ::
  "'l IDsLoader \<Rightarrow> 'l DataSource \<Rightarrow> size_t \<Rightarrow> error + (Sequences \<times> 'l DataSource)" where
  "GetNextSequences loader this totalSampleCount =
     (case minibatchSampleCount this totalSampleCount of
        Inl e \<Rightarrow> Inl e
      | Inr (sampleCount, endOfEpoch) \<Rightarrow>
          (let data = replicate (length (m_inputStreams this)) (replicate (unat sampleCount) None)
           in case sampleLoop loader this (unat sampleCount) 0 (m_dsLoader this) (m_example this)
                     data of
                Inl e \<Rightarrow> Inl e
              | Inr (dsLoader', example', data') \<Rightarrow>
                  Inr (\<lparr>m_data = data', m_endOfEpoch = endOfEpoch\<rparr>,
                       this\<lparr>m_dsLoader := dsLoader', m_example := example',
                            m_currEpochSampleCount :=
                              m_currEpochSampleCount this + scast (ucast sampleCount :: cint)\<rparr>)))"


text \<open>
  The rounds of the loop over the streams (lines 522-653), counted: the values of
  \<^verbatim>\<open>istr\<close> and \<^verbatim>\<open>iStreamDesc\<close>, the adapter and \<^verbatim>\<open>m_data\<close> with which the loop,
  entered with the given ones, arrives at its test after \<open>j\<close> rounds (after its last
  round, if it makes fewer).
\<close>

fun streamRound ::
  "'l DataSource \<Rightarrow> nat \<Rightarrow> nat \<Rightarrow> nat \<Rightarrow> nat \<Rightarrow> ImageDatasetExample \<Rightarrow>
   SequenceDataPtr option list list \<Rightarrow>
   error + (nat \<times> nat \<times> ImageDatasetExample \<times> SequenceDataPtr option list list)" where
  "streamRound this ismpl 0 istr iStreamDesc example data =
     Inr (istr, iStreamDesc, example, data)"
| "streamRound this ismpl (Suc j) istr iStreamDesc example data =
     (if istr < length (m_inputStreams this) then
        (case streamStep this ismpl istr iStreamDesc example data of
           Inl e \<Rightarrow> Inl e
         | Inr (istr', iStreamDesc', example', data') \<Rightarrow>
             streamRound this ismpl j istr' iStreamDesc' example' data')
      else Inr (istr, iStreamDesc, example, data))"

text \<open>
  The round that \<^verbatim>\<open>GetNextSequences\<close> enters as round \<open>j\<close> (counted from 0) of the loop
  over the streams for sample \<open>ismpl\<close>: the values of \<^verbatim>\<open>istr\<close> and \<^verbatim>\<open>iStreamDesc\<close>, the
  adapter and \<^verbatim>\<open>m_data\<close> at the start of that round; \<open>None\<close> if the call makes no such
  round. The first \<open>ismpl\<close> samples are those of the loop over the samples itself.
\<close>

definition enteredRound ::
  "'l IDsLoader \<Rightarrow> 'l DataSource \<Rightarrow> size_t \<Rightarrow> nat \<Rightarrow> nat \<Rightarrow>
   (nat \<times> nat \<times> ImageDatasetExample \<times> SequenceDataPtr option list list) option" where
  "enteredRound loader this totalSampleCount ismpl j =
     (case minibatchSampleCount this totalSampleCount of
        Inl e \<Rightarrow> None
      | Inr (sampleCount, endOfEpoch) \<Rightarrow>
          if ismpl < unat sampleCount then
            (case sampleLoop loader this ismpl 0 (m_dsLoader this) (m_example this)
                    (replicate (length (m_inputStreams this))
                       (replicate (unat sampleCount) None)) of
               Inl e \<Rightarrow> None
             | Inr (dsLoader, example, data) \<Rightarrow>
                 (case streamRound this ismpl j 0 0 example data of
                    Inl e \<Rightarrow> None
                  | Inr (istr, iStreamDesc, example', data') \<Rightarrow>
                      if istr < length (m_inputStreams this)
                      then Some (istr, iStreamDesc, example', data') else None))
          else None)"

section \<open>Concrete readers\<close>

text \<open>
  Small readers and loaders on which the theorems below are instantiated: a loader of
  \<open>n\<close> examples that leaves the adapter as it is, and a reader without streams in the
  state its constructor leaves it in.
\<close>

definition testExample :: ImageDatasetExample where
  "testExample = \<lparr>m_blobNames = [''image''], m_blobs = [[]], m_blob_shapes = [(0, 0, 0)]\<rparr>"

definition idleLoader :: "size_t \<Rightarrow> unit IDsLoader" where
  "idleLoader n = \<lparr>GetExamplesCount = (\<lambda>l. n), GetExample = (\<lambda>l example. (l, example))\<rparr>"

definition readerWithoutStreams :: "size_t \<Rightarrow> size_t \<Rightarrow> unit DataSource" where
  "readerWithoutStreams workerRank numberOfWorkers =
     \<lparr>m_inputStreams = [], m_streamDescriptors = [], m_dsLoader = (), m_example = testExample,
      m_minibatchSize = 0, m_appendLastMinibatch = False, m_workerRank = workerRank,
      m_numberOfWorkers = numberOfWorkers, m_epochSize = 0, m_currEpochSampleCount = 0,
      m_epochOverride = False\<rparr>"

definition epochConfiguration :: "size_t \<Rightarrow> size_t \<Rightarrow> size_t \<Rightarrow> size_t \<Rightarrow> EpochConfiguration" where
  "epochConfiguration numberOfWorkers workerRank minibatchSize totalEpochSize =
     \<lparr>c_numberOfWorkers = numberOfWorkers, c_workerRank = workerRank,
      c_minibatchSizeInSamples = minibatchSize, c_totalEpochSizeInSamples = totalEpochSize\<rparr>"

text \<open>
  A loader that hands out the examples of a list, one at each pull, and a reader of one
  worker with a dense stream \<open>features\<close> (blob \<open>image\<close> of shape \<open>1 x 2 x 3\<close>) and a sparse
  stream \<open>labels\<close> (blob \<open>label\<close>, \<open>spatial\<close> positions, \<open>classes\<close> classes), with an ignore
  stream when an ignore label is given. Its minibatch and its epoch hold \<open>samples\<close>
  samples; the adapter holds the first example and the loader the ones that follow.
\<close>

definition listLoader :: "ImageDatasetExample list IDsLoader" where
  "listLoader =
     \<lparr>GetExamplesCount = (\<lambda>l. of_nat (length l)),
      GetExample = (\<lambda>l example. case l of [] \<Rightarrow> ([], example) | x # rest \<Rightarrow> (rest, x))\<rparr>"

definition segmentationExample :: "float list \<Rightarrow> float list \<Rightarrow> cint \<Rightarrow> ImageDatasetExample" where
  "segmentationExample pixels labels positions =
     \<lparr>m_blobNames = [''image'', ''label''], m_blobs = [pixels, labels],
      m_blob_shapes = [(1, 2, 3), (1, 1, positions)]\<rparr>"

definition segmentationReader ::
  "size_t \<Rightarrow> size_t \<Rightarrow> cint option \<Rightarrow> size_t \<Rightarrow> ImageDatasetExample \<Rightarrow>
   ImageDatasetExample list \<Rightarrow> ImageDatasetExample list DataSource" where
  "segmentationReader spatial classes ignore samples first following =
     \<lparr>m_inputStreams =
        [\<lparr>m_storageType = dense, m_streamLayout = (3, 2, 1)\<rparr>,
         \<lparr>m_storageType = sparse_csc, m_streamLayout = (spatial, 1, classes)\<rparr>] @
        (case ignore of None \<Rightarrow> []
         | Some l \<Rightarrow> [\<lparr>m_storageType = dense, m_streamLayout = (spatial, 1, 1)\<rparr>]),
      m_streamDescriptors =
        [\<lparr>name = ''features'', datasetName = ''image'', datasetStorageType = dense,
          dimension = 0, ignoreStream = None\<rparr>,
         \<lparr>name = ''labels'', datasetName = ''label'', datasetStorageType = sparse_csc,
          dimension = ucast classes,
          ignoreStream = map_option (\<lambda>l. \<lparr>ignoreStreamName = ''ignore'', ignoreLabel = l\<rparr>) ignore\<rparr>],
      m_dsLoader = following, m_example = first,
      m_minibatchSize = samples, m_appendLastMinibatch = False, m_workerRank = 0,
      m_numberOfWorkers = 1, m_epochSize = samples, m_currEpochSampleCount = 0,
      m_epochOverride = False\<rparr>"

text \<open>Two samples, without an ignore stream.\<close>

definition twoSamples :: "ImageDatasetExample list DataSource" where
  "twoSamples = segmentationReader 3 3 None 2 (segmentationExample [1, 2, 3, 4, 5, 6] [2, 0, 1] 3)
     [segmentationExample [7, 8, 9, 10, 11, 12] [1, 1, 0] 3]"



definition largeLabel :: "ImageDatasetExample list DataSource" where
  "largeLabel = segmentationReader 4 2147483647 None 1
     (segmentationExample [1, 2, 3, 4, 5, 6] [1073741824, 0, 1, 2] 4) []"

definition strayLabel :: "ImageDatasetExample list DataSource" where
  "strayLabel = segmentationReader 3 3 None 1
     (segmentationExample [1, 2, 3, 4, 5, 6] [7, 0, 1] 3) []"

section \<open>Casts between the integer types\<close>

lemma gt_minus_one_iff:
  fixes x oc :: size_t
  assumes "oc \<noteq> 0"
  shows "oc - 1 < x \<longleftrightarrow> oc \<le> x"
proof -
  have "0 < unat oc" using assms by (simp add: unat_gt_0)
  then have "unat (oc - 1) = unat oc - 1" by (simp add: unat_minus_one assms)
  with \<open>0 < unat oc\<close> show ?thesis by (auto simp: word_less_nat_alt word_le_nat_alt)
qed

lemma unat_scast_nonneg:
  fixes c :: cint
  assumes "\<not> c <s 0"
  shows "unat (scast c :: size_t) = nat (sint c)"
proof -
  have 0: "0 \<le> sint c" using assms by (simp add: word_sless_alt)
  have "sint c < 2 ^ 31" using sint_lt [of c] by simp
  then have "sint c < 2 ^ 64" by simp
  have "uint (word_of_int (sint c) :: size_t) = sint c mod 2 ^ LENGTH(64)"
    by (rule uint_word_of_int)
  also have "\<dots> = sint c" using 0 \<open>sint c < 2 ^ 64\<close> by simp
  finally have "uint (scast c :: size_t) = sint c" by (simp only: scast_eq)
  then show ?thesis by (simp only: unat_eq_nat_uint)
qed

lemma scast_ucast_small:
  fixes n :: size_t
  assumes "unat n < 2 ^ 31"
  shows "(scast (ucast n :: cint) :: size_t) = n"
proof -
  have "int (unat n) < int (2 ^ 31)" using assms by (simp only: of_nat_less_iff)
  then have u: "uint n < 2 ^ 31" by (simp only: uint_nat of_nat_power of_nat_numeral)
  have "uint (ucast n :: cint) = take_bit 32 (uint n)"
    by (simp add: unsigned_ucast_eq)
  also have "\<dots> = uint n" using u by (simp add: take_bit_int_eq_self)
  finally have a: "uint (ucast n :: cint) = uint n" .
  have "sint (ucast n :: cint) = signed_take_bit 31 (uint (ucast n :: cint))"
    by (simp add: sint_uint)
  also have "\<dots> = uint n"
  proof -
    have "- (2 ^ 31) \<le> (0 :: int)" by simp
    then have "- (2 ^ 31) \<le> uint n" using uint_nonnegative [of n] by (rule order_trans)
    from signed_take_bit_int_eq_self [OF this u] show ?thesis unfolding a .
  qed
  finally have "sint (ucast n :: cint) = uint n" .
  then have "(scast (ucast n :: cint) :: size_t) = word_of_int (uint n)"
    by (simp only: scast_eq)
  then show ?thesis by simp
qed

lemma ucast_small:
  fixes n :: size_t
  assumes "unat n < 2 ^ 32"
  shows "unat (ucast n :: cint) = unat n"
proof -
  have "unat (ucast n :: cint) = take_bit 32 (unat n)"
    by (simp add: unsigned_ucast_eq)
  then show ?thesis using assms by (simp add: take_bit_nat_eq_self)
qed

section \<open>The portion of one reader\<close>

lemma thisReaderPortion_unat:
  fixes E M W :: size_t
  assumes W: "W \<noteq> 0" and M: "M \<noteq> 0"
  shows "unat (fst (thisReaderPortion E M W R)) =
           (unat E div unat M * unat M) div unat W + (unat E mod unat M) div unat W +
           (if unat R < (unat E mod unat M) mod unat W then 1 else 0)"
proof -
  let ?e = "unat E" and ?m = "unat M" and ?w = "unat W"
  have w0: "0 < ?w" using W by (simp add: unat_gt_0)
  have m0: "0 < ?m" using M by (simp add: unat_gt_0)
  have eb: "?e < 2 ^ 64" using unsigned_less [of E] by simp
  have q: "?e div ?m * ?m \<le> ?e" by simp
  have "?e div ?m * ?m < 2 ^ LENGTH(64)"
    by (rule le_less_trans [OF q]) (rule unsigned_less)
  then have "unat (E div M) * unat M < 2 ^ LENGTH(64)"
    by (simp only: unat_div)
  then have "unat (E div M * M) = unat (E div M) * unat M"
    by (rule unat_mult_lem [THEN iffD1])
  then have uq: "unat (E div M * M) = ?e div ?m * ?m"
    by (simp add: unat_div)
  have ubase: "unat (E div M * M div W) = (?e div ?m * ?m) div ?w"
    by (simp add: unat_div uq)
  have urem: "unat (E mod M) = ?e mod ?m" by (simp add: unat_mod)
  have upart: "unat (E mod M div W) = (?e mod ?m) div ?w" by (simp add: unat_div unat_mod)
  have uextra: "unat (E mod M mod W) = (?e mod ?m) mod ?w" by (simp add: unat_mod)
  have le1: "(?e div ?m * ?m) div ?w \<le> ?e div ?m * ?m" by (rule div_le_dividend)
  have le2: "(?e mod ?m) div ?w \<le> ?e mod ?m" by (rule div_le_dividend)
  have split: "?e div ?m * ?m + ?e mod ?m = ?e" by simp
  have s1: "(?e div ?m * ?m) div ?w + (?e mod ?m) div ?w \<le> ?e" using le1 le2 split by linarith
  have "unat (E div M * M div W) + unat (E mod M div W) < 2 ^ LENGTH(64)"
    using s1 eb ubase upart by simp
  then have "unat (E div M * M div W + E mod M div W) =
             unat (E div M * M div W) + unat (E mod M div W)"
    by (rule unat_add_lem [THEN iffD1])
  then have usum: "unat (E div M * M div W + E mod M div W) =
               (?e div ?m * ?m) div ?w + (?e mod ?m) div ?w"
    using ubase upart by simp
  show ?thesis
  proof (cases "E mod M = 0")
    case True
    then have "?e mod ?m = 0" using urem by simp
    with True show ?thesis by (simp add: thisReaderPortion_def Let_def ubase)
  next
    case rem: False
    show ?thesis
    proof (cases "R < E mod M mod W")
      case True
      then have lt: "unat R < (?e mod ?m) mod ?w" by (simp add: word_less_nat_alt uextra)
      have ne: "E mod M mod W \<noteq> 0" using True by (metis not_less_zero unat_0 word_less_nat_alt)
      have "(?e mod ?m) div ?w * ?w + (?e mod ?m) mod ?w = ?e mod ?m" by simp
      moreover have "(?e mod ?m) div ?w \<le> (?e mod ?m) div ?w * ?w" using w0 by simp
      ultimately have "(?e mod ?m) div ?w + 1 \<le> ?e mod ?m" using lt by linarith
      then have s2: "(?e div ?m * ?m) div ?w + (?e mod ?m) div ?w + 1 \<le> ?e"
        using le1 split by linarith
      have "unat (E div M * M div W + E mod M div W) + unat (1 :: size_t) < 2 ^ LENGTH(64)"
        using s2 eb usum by simp
      then have "unat (E div M * M div W + E mod M div W + 1) =
            unat (E div M * M div W + E mod M div W) + unat (1 :: size_t)"
        by (rule unat_add_lem [THEN iffD1])
      then have "unat (E div M * M div W + E mod M div W + 1) =
            (?e div ?m * ?m) div ?w + (?e mod ?m) div ?w + 1"
        using usum by simp
      with True rem ne lt show ?thesis by (simp add: thisReaderPortion_def Let_def)
    next
      case False
      then have nlt: "\<not> unat R < (?e mod ?m) mod ?w" by (simp add: word_less_nat_alt uextra)
      with False rem usum show ?thesis by (simp add: thisReaderPortion_def Let_def)
    qed
  qed
qed

lemma thisReaderPortion_sum:
  fixes E M W :: size_t
  assumes W: "W \<noteq> 0" and M: "M \<noteq> 0" and dvd: "M mod W = 0"
  shows "(\<Sum>r<unat W. unat (fst (thisReaderPortion E M W (of_nat r)))) = unat E"
proof -
  let ?e = "unat E" and ?m = "unat M" and ?w = "unat W"
  have w0: "0 < ?w" using W by (simp add: unat_gt_0)
  have wb: "?w < 2 ^ 64" using unsigned_less [of W] by simp
  have "unat (M mod W) = 0" using dvd by simp
  then have d: "?w dvd ?m" by (simp add: unat_mod mod_eq_0_iff_dvd)
  then have d2: "?w dvd ?e div ?m * ?m" by simp
  have r: "\<And>r. r < ?w \<Longrightarrow> unat (of_nat r :: size_t) = r"
    using wb by (simp add: unat_of_nat)
  have ex: "(?e mod ?m) mod ?w \<le> ?w" using w0 by (simp add: less_imp_le)
  have "(\<Sum>r<?w. unat (fst (thisReaderPortion E M W (of_nat r)))) =
        (\<Sum>r<?w. (?e div ?m * ?m) div ?w + (?e mod ?m) div ?w +
                   (if r < (?e mod ?m) mod ?w then 1 else 0))"
    by (rule sum.cong) (simp_all add: thisReaderPortion_unat [OF W M] r)
  also have "\<dots> = ?w * ((?e div ?m * ?m) div ?w) + ?w * ((?e mod ?m) div ?w) +
                   (\<Sum>r<?w. if r < (?e mod ?m) mod ?w then 1 else 0)"
    by (simp add: sum.distrib distrib_left)
  also have "(\<Sum>r<?w. if r < (?e mod ?m) mod ?w then 1 else 0) = (?e mod ?m) mod ?w"
  proof -
    have "{r. r < ?w \<and> r < (?e mod ?m) mod ?w} = {..<(?e mod ?m) mod ?w}" using ex by auto
    then show ?thesis by (simp add: sum.If_cases Int_def lessThan_def)
  qed
  also have "?w * ((?e div ?m * ?m) div ?w) = ?e div ?m * ?m" using d2 by simp
  finally show ?thesis by simp
qed


lemma thisReaderPortion_append:
  fixes E M W :: size_t
  assumes W: "W \<noteq> 0" and M: "M \<noteq> 0"
  shows "snd (thisReaderPortion E M W R) \<longleftrightarrow>
           0 < unat E mod unat M \<and> (unat E mod unat M) div unat W = 0 \<and>
           unat R < (unat E mod unat M) mod unat W"
proof -
  have urem: "unat (E mod M) = unat E mod unat M" by (simp add: unat_mod)
  have upart: "unat (E mod M div W) = (unat E mod unat M) div unat W"
    by (simp add: unat_div unat_mod)
  have uextra: "unat (E mod M mod W) = (unat E mod unat M) mod unat W" by (simp add: unat_mod)
  have r0: "E mod M \<noteq> 0 \<longleftrightarrow> 0 < unat E mod unat M"
    using urem by (metis unat_gt_0)
  have p0: "E mod M div W = 0 \<longleftrightarrow> (unat E mod unat M) div unat W = 0"
    using upart by (metis unat_eq_zero)
  have x0: "E mod M mod W \<noteq> 0 \<longleftrightarrow> 0 < (unat E mod unat M) mod unat W"
    using uextra by (metis unat_gt_0)
  have lt: "R < E mod M mod W \<longleftrightarrow> unat R < (unat E mod unat M) mod unat W"
    by (simp add: word_less_nat_alt uextra)
  show ?thesis
    unfolding thisReaderPortion_def Let_def using r0 p0 x0 lt by auto
qed

lemma StartEpoch_Inr:
  assumes "m_epochSize this = m_currEpochSampleCount this"
    and "m_workerRank this = c_workerRank config"
    and "m_numberOfWorkers this = c_numberOfWorkers config"
    and "c_minibatchSizeInSamples config \<noteq> 0"
    and "c_minibatchSizeInSamples config mod m_numberOfWorkers this = 0"
  shows "StartEpoch requestDataSize loader config this =
           Inr (this\<lparr>m_minibatchSize := c_minibatchSizeInSamples config,
                     m_appendLastMinibatch :=
                       snd (thisReaderPortion
                              (globalEpochSize requestDataSize
                                 (GetExamplesCount loader (m_dsLoader this)) config
                                 (m_epochOverride this) (m_numberOfWorkers this))
                              (c_minibatchSizeInSamples config) (m_numberOfWorkers this)
                              (m_workerRank this)),
                     m_epochSize :=
                       fst (thisReaderPortion
                              (globalEpochSize requestDataSize
                                 (GetExamplesCount loader (m_dsLoader this)) config
                                 (m_epochOverride this) (m_numberOfWorkers this))
                              (c_minibatchSizeInSamples config) (m_numberOfWorkers this)
                              (m_workerRank this)),
                     m_currEpochSampleCount := 0\<rparr>)"
proof -
  have "m_numberOfWorkers this \<noteq> 0" using assms(4,5) by (cases "m_numberOfWorkers this = 0") auto
  then show ?thesis using assms by (simp add: StartEpoch_def Let_def split_beta)
qed

lemma StartEpoch_Inr_iff:
  "(\<exists>t. StartEpoch requestDataSize loader config this = Inr t) \<longleftrightarrow>
     m_epochSize this = m_currEpochSampleCount this \<and>
     m_workerRank this = c_workerRank config \<and>
     m_numberOfWorkers this = c_numberOfWorkers config \<and>
     m_numberOfWorkers this \<noteq> 0 \<and>
     c_minibatchSizeInSamples config \<noteq> 0 \<and>
     c_minibatchSizeInSamples config mod m_numberOfWorkers this = 0"
  by (auto simp: StartEpoch_def Let_def split_beta)

section \<open>StartEpoch\<close>

text \<open>
  C1 (amended). Let the minibatch size be nonzero and divisible by the number of workers,
  and let every rank below the number of workers have a reader that has consumed its
  previous epoch and was constructed with that rank and that number of workers. Then
  \<^verbatim>\<open>StartEpoch\<close> succeeds on every rank, and the epoch sizes it computes add up to the
  epoch size of the job, whether or not the minibatch size divides it.
\<close>

theorem StartEpoch_portions_sum:
  fixes this :: "nat \<Rightarrow> 'l DataSource" and config :: "nat \<Rightarrow> EpochConfiguration"
  assumes M: "M \<noteq> 0" and dvd: "M mod W = 0"
    and st: "\<forall>r<unat W.
               m_epochSize (this r) = m_currEpochSampleCount (this r) \<and>
               m_workerRank (this r) = of_nat r \<and> m_numberOfWorkers (this r) = W \<and>
               config r = epochConfiguration W (of_nat r) M T \<and>
               globalEpochSize requestDataSize (GetExamplesCount loader (m_dsLoader (this r)))
                 (config r) (m_epochOverride (this r)) W = E"
  shows "(\<forall>r<unat W. \<not> isl (StartEpoch requestDataSize loader (config r) (this r))) \<and>
         (\<Sum>r<unat W. unat (m_epochSize (projr (StartEpoch requestDataSize loader (config r) (this r)))))
           = unat E"
proof -
  have W: "W \<noteq> 0" using M dvd by (cases "W = 0") auto
  have eq: "unat (m_epochSize (projr (StartEpoch requestDataSize loader (config r) (this r)))) =
            unat (fst (thisReaderPortion E M W (of_nat r)))"
       and ok: "\<not> isl (StartEpoch requestDataSize loader (config r) (this r))"
    if "r < unat W" for r
  proof -
    from st that have h: "m_epochSize (this r) = m_currEpochSampleCount (this r)"
      "m_workerRank (this r) = of_nat r" "m_numberOfWorkers (this r) = W"
      "config r = epochConfiguration W (of_nat r) M T"
      "globalEpochSize requestDataSize (GetExamplesCount loader (m_dsLoader (this r)))
                 (config r) (m_epochOverride (this r)) W = E"
      by auto
    have c: "c_workerRank (config r) = of_nat r" "c_numberOfWorkers (config r) = W"
      "c_minibatchSizeInSamples (config r) = M"
      by (simp_all add: h(4) epochConfiguration_def)
    have "StartEpoch requestDataSize loader (config r) (this r) =
          Inr ((this r)\<lparr>m_minibatchSize := M,
                 m_appendLastMinibatch := snd (thisReaderPortion E M W (of_nat r)),
                 m_epochSize := fst (thisReaderPortion E M W (of_nat r)),
                 m_currEpochSampleCount := 0\<rparr>)"
      using StartEpoch_Inr [of "this r" "config r" requestDataSize loader] h(1,2,3,5) c M dvd
      by simp
    then show "unat (m_epochSize (projr (StartEpoch requestDataSize loader (config r) (this r)))) =
            unat (fst (thisReaderPortion E M W (of_nat r)))"
      and "\<not> isl (StartEpoch requestDataSize loader (config r) (this r))"
      by simp_all
  qed
  have "(\<Sum>r<unat W. unat (m_epochSize (projr (StartEpoch requestDataSize loader (config r) (this r)))))
        = (\<Sum>r<unat W. unat (fst (thisReaderPortion E M W (of_nat r))))"
    by (rule sum.cong) (simp_all add: eq)
  then show ?thesis using ok thisReaderPortion_sum [OF W M dvd, of E] by simp
qed

theorem StartEpoch_portions_sum_witness:
  "(4 :: size_t) \<noteq> 0 \<and> (4 :: size_t) mod 2 = 0 \<and>
   \<not> isl (StartEpoch 4611686018427387903 (idleLoader 9)
            (epochConfiguration 2 0 4 7) (readerWithoutStreams 0 2)) \<and>
   \<not> isl (StartEpoch 4611686018427387903 (idleLoader 9)
            (epochConfiguration 2 1 4 7) (readerWithoutStreams 1 2)) \<and>
   (\<Sum>r<unat (2 :: size_t).
      unat (m_epochSize (projr (StartEpoch 4611686018427387903 (idleLoader 9)
              (epochConfiguration 2 (of_nat r) 4 7) (readerWithoutStreams (of_nat r) 2))))) = 7"
proof -
  have u: "unat (7 :: size_t) = 7" by simp
  have two: "unat (2 :: size_t) = 2" by simp
  have hyp: "\<forall>r<unat (2 :: size_t).
               m_epochSize (readerWithoutStreams (of_nat r) 2) =
                 m_currEpochSampleCount (readerWithoutStreams (of_nat r) 2) \<and>
               m_workerRank (readerWithoutStreams (of_nat r) 2) = of_nat r \<and>
               m_numberOfWorkers (readerWithoutStreams (of_nat r) 2) = 2 \<and>
               epochConfiguration 2 (of_nat r) 4 7 = epochConfiguration 2 (of_nat r) 4 7 \<and>
               globalEpochSize 4611686018427387903
                 (GetExamplesCount (idleLoader 9) (m_dsLoader (readerWithoutStreams (of_nat r) 2)))
                 (epochConfiguration 2 (of_nat r) 4 7)
                 (m_epochOverride (readerWithoutStreams (of_nat r) 2)) 2 = 7"
    by (simp add: readerWithoutStreams_def epochConfiguration_def globalEpochSize_def
          UseAllExamplesFromDatasetForEpoch_def)
  have m: "(4 :: size_t) \<noteq> 0" and d: "(4 :: size_t) mod 2 = 0" by simp_all
  note c = StartEpoch_portions_sum [of 4 2 "\<lambda>r. readerWithoutStreams (of_nat r) 2"
        "\<lambda>r. epochConfiguration 2 (of_nat r) 4 7" 7 4611686018427387903 "idleLoader 9" 7,
        OF m d hyp]
  from c have a: "\<forall>r<unat (2 :: size_t).
      \<not> isl (StartEpoch 4611686018427387903 (idleLoader 9)
            (epochConfiguration 2 (of_nat r) 4 7) (readerWithoutStreams (of_nat r) 2))"
    by (rule conjunct1)
  have a0: "\<not> isl (StartEpoch 4611686018427387903 (idleLoader 9)
            (epochConfiguration 2 0 4 7) (readerWithoutStreams 0 2))"
    using a [rule_format, of 0] by (simp add: two)
  have a1: "\<not> isl (StartEpoch 4611686018427387903 (idleLoader 9)
            (epochConfiguration 2 1 4 7) (readerWithoutStreams 1 2))"
    using a [rule_format, of 1] by (simp add: two)
  from c have s: "(\<Sum>r<unat (2 :: size_t).
      unat (m_epochSize (projr (StartEpoch 4611686018427387903 (idleLoader 9)
              (epochConfiguration 2 (of_nat r) 4 7) (readerWithoutStreams (of_nat r) 2))))) = 7"
    unfolding u by (rule conjunct2)
  from m d a0 a1 s show ?thesis by blast
qed

text \<open>
  With a minibatch size of 0 the hypothesis of C1 as stated holds (\<open>0 mod 1 = 0\<close>), and
  \<^verbatim>\<open>StartEpoch\<close> divides by zero in line 404.
\<close>

theorem StartEpoch_zero_minibatch_counterexample:
  "(0 :: size_t) mod 1 = 0 \<and>
   StartEpoch 4611686018427387903 (idleLoader 9) (epochConfiguration 1 0 0 5)
     (readerWithoutStreams 0 1) = Inl (Undefined DivisionByZero)"
  by (simp add: StartEpoch_def readerWithoutStreams_def epochConfiguration_def Let_def)

text \<open>
  C2. For a nonzero minibatch size \<open>M\<close> that the number of workers divides, and with \<open>E\<close>
  the epoch size of the job, \<^verbatim>\<open>StartEpoch\<close> succeeds and the reader's epoch size is
  \<open>(E div M) * M div workerCount\<close>, plus \<open>r div workerCount\<close> for \<open>r = E mod M\<close> when
  \<open>r > 0\<close>, plus 1 exactly when the rank is below \<open>r mod workerCount\<close>; and
  \<^verbatim>\<open>m_appendLastMinibatch\<close> is set exactly when \<open>r > 0\<close>, \<open>r div workerCount = 0\<close> and
  the rank is below \<open>r mod workerCount\<close>. The numbers are the unsigned values of the
  \<^verbatim>\<open>size_t\<close> fields: no step of the computation wraps.
\<close>

theorem StartEpoch_portion_formula:
  assumes "m_epochSize this = m_currEpochSampleCount this"
    and "m_workerRank this = c_workerRank config"
    and "m_numberOfWorkers this = c_numberOfWorkers config"
    and M: "c_minibatchSizeInSamples config \<noteq> 0"
    and dvd: "c_minibatchSizeInSamples config mod m_numberOfWorkers this = 0"
  shows "\<exists>t. StartEpoch requestDataSize loader config this = Inr t \<and>
           (let E = unat (globalEpochSize requestDataSize
                            (GetExamplesCount loader (m_dsLoader this)) config
                            (m_epochOverride this) (m_numberOfWorkers this));
                M = unat (c_minibatchSizeInSamples config);
                workerCount = unat (m_numberOfWorkers this);
                rank = unat (m_workerRank this);
                r = E mod M
            in unat (m_epochSize t) =
                 (E div M) * M div workerCount + (if 0 < r then r div workerCount else 0) +
                 (if rank < r mod workerCount then 1 else 0) \<and>
               (m_appendLastMinibatch t \<longleftrightarrow>
                  0 < r \<and> r div workerCount = 0 \<and> rank < r mod workerCount))"
proof -
  have W: "m_numberOfWorkers this \<noteq> 0"
    using M dvd by (cases "m_numberOfWorkers this = 0") auto
  show ?thesis
    unfolding StartEpoch_Inr [OF assms] Let_def
    by (simp add: thisReaderPortion_unat [OF W M] thisReaderPortion_append [OF W M])
qed

theorem StartEpoch_portion_formula_witness:
  "m_epochSize (readerWithoutStreams 1 4) = m_currEpochSampleCount (readerWithoutStreams 1 4) \<and>
   c_minibatchSizeInSamples (epochConfiguration 4 1 8 18) \<noteq> 0 \<and>
   c_minibatchSizeInSamples (epochConfiguration 4 1 8 18) mod
     m_numberOfWorkers (readerWithoutStreams 1 4) = 0 \<and>
   (\<exists>t. StartEpoch 4611686018427387903 (idleLoader 9) (epochConfiguration 4 1 8 18)
          (readerWithoutStreams 1 4) = Inr t \<and>
        unat (m_epochSize t) = 5 \<and> m_appendLastMinibatch t)"
proof -
  have h: "m_epochSize (readerWithoutStreams 1 4) = m_currEpochSampleCount (readerWithoutStreams 1 4)"
    "m_workerRank (readerWithoutStreams 1 4) = c_workerRank (epochConfiguration 4 1 8 18)"
    "m_numberOfWorkers (readerWithoutStreams 1 4) = c_numberOfWorkers (epochConfiguration 4 1 8 18)"
    "c_minibatchSizeInSamples (epochConfiguration 4 1 8 18) \<noteq> 0"
    "c_minibatchSizeInSamples (epochConfiguration 4 1 8 18) mod
       m_numberOfWorkers (readerWithoutStreams 1 4) = 0"
    by (simp_all add: readerWithoutStreams_def epochConfiguration_def)
  obtain t where t: "StartEpoch 4611686018427387903 (idleLoader 9) (epochConfiguration 4 1 8 18)
          (readerWithoutStreams 1 4) = Inr t"
    and f: "let E = unat (globalEpochSize 4611686018427387903
                            (GetExamplesCount (idleLoader 9) (m_dsLoader (readerWithoutStreams 1 4)))
                            (epochConfiguration 4 1 8 18)
                            (m_epochOverride (readerWithoutStreams 1 4))
                            (m_numberOfWorkers (readerWithoutStreams 1 4)));
                M = unat (c_minibatchSizeInSamples (epochConfiguration 4 1 8 18));
                workerCount = unat (m_numberOfWorkers (readerWithoutStreams 1 4));
                rank = unat (m_workerRank (readerWithoutStreams 1 4));
                r = E mod M
            in unat (m_epochSize t) =
                 (E div M) * M div workerCount + (if 0 < r then r div workerCount else 0) +
                 (if rank < r mod workerCount then 1 else 0) \<and>
               (m_appendLastMinibatch t \<longleftrightarrow>
                  0 < r \<and> r div workerCount = 0 \<and> rank < r mod workerCount)"
    using StartEpoch_portion_formula [OF h, of 4611686018427387903 "idleLoader 9"] by blast
  have "unat (m_epochSize t) = 5 \<and> m_appendLastMinibatch t"
    using f
    by (simp add: readerWithoutStreams_def epochConfiguration_def globalEpochSize_def
          UseAllExamplesFromDatasetForEpoch_def Let_def)
  with t h show ?thesis by blast
qed

text \<open>
  C4 (amended). With 3 workers and a minibatch size of 10, \<^verbatim>\<open>StartEpoch\<close> computes no
  epoch size for an epoch of 100 samples: it raises one of its fatal errors, the last of
  which is that 10 is not divisible by 3. The arithmetic of lines 403-430 on these
  numbers would give \<open>((100 div 10) * 10) div 3 = 33\<close> for each of the three ranks, with
  no remainder.
\<close>

theorem StartEpoch_100_10_3:
  "StartEpoch requestDataSize loader (epochConfiguration 3 rank 10 100) this \<in>
     {Inl (RuntimeError EpochNotFinished), Inl (RuntimeError RankChanged),
      Inl (RuntimeError WorkersChanged), Inl (RuntimeError MinibatchNotDivisible)} \<and>
   thisReaderPortion 100 10 3 0 = (33, False) \<and>
   thisReaderPortion 100 10 3 1 = (33, False) \<and>
   thisReaderPortion 100 10 3 2 = (33, False)"
  by (simp add: StartEpoch_def epochConfiguration_def thisReaderPortion_def Let_def)

text \<open>
  A reader of rank 0 among 3 workers that meets every other precondition: the call
  raises the fatal error of line 381.
\<close>

theorem StartEpoch_100_10_3_counterexample:
  "StartEpoch 4611686018427387903 (idleLoader 100) (epochConfiguration 3 0 10 100)
     (readerWithoutStreams 0 3) = Inl (RuntimeError MinibatchNotDivisible)"
  by (simp add: StartEpoch_def epochConfiguration_def readerWithoutStreams_def Let_def)

text \<open>
  C8 (amended). For a nonzero number of workers and a nonzero new minibatch size,
  \<^verbatim>\<open>StartEpoch\<close> raises a fatal error exactly when the consumed-sample counter differs
  from the epoch size, or the rank or the number of workers differs from the reader's,
  or the minibatch size is not divisible by the number of workers; it fails in no other
  way; and on success the consumed-sample counter is 0.
\<close>

theorem StartEpoch_fails_iff:
  assumes W: "m_numberOfWorkers this \<noteq> 0" and M: "c_minibatchSizeInSamples config \<noteq> 0"
  shows "(is_RuntimeError (StartEpoch requestDataSize loader config this) \<longleftrightarrow>
            m_epochSize this \<noteq> m_currEpochSampleCount this \<or>
            m_workerRank this \<noteq> c_workerRank config \<or>
            m_numberOfWorkers this \<noteq> c_numberOfWorkers config \<or>
            c_minibatchSizeInSamples config mod m_numberOfWorkers this \<noteq> 0) \<and>
         (isl (StartEpoch requestDataSize loader config this) \<longleftrightarrow>
            is_RuntimeError (StartEpoch requestDataSize loader config this)) \<and>
         (\<forall>t. StartEpoch requestDataSize loader config this = Inr t \<longrightarrow>
            m_currEpochSampleCount t = 0)"
  using W M by (auto simp: StartEpoch_def Let_def split_beta)

theorem StartEpoch_fails_iff_witness:
  "m_numberOfWorkers (readerWithoutStreams 1 2) \<noteq> 0 \<and>
   c_minibatchSizeInSamples (epochConfiguration 2 1 6 20) \<noteq> 0 \<and>
   \<not> isl (StartEpoch 4611686018427387903 (idleLoader 9) (epochConfiguration 2 1 6 20)
            (readerWithoutStreams 1 2)) \<and>
   m_currEpochSampleCount (projr (StartEpoch 4611686018427387903 (idleLoader 9)
      (epochConfiguration 2 1 6 20) (readerWithoutStreams 1 2))) = 0 \<and>
   is_RuntimeError (StartEpoch 4611686018427387903 (idleLoader 9) (epochConfiguration 2 1 5 20)
            (readerWithoutStreams 1 2))"
proof -
  have w: "m_numberOfWorkers (readerWithoutStreams 1 2) \<noteq> 0"
    by (simp add: readerWithoutStreams_def)
  have m: "c_minibatchSizeInSamples (epochConfiguration 2 1 6 20) \<noteq> 0"
    and m': "c_minibatchSizeInSamples (epochConfiguration 2 1 5 20) \<noteq> 0"
    by (simp_all add: epochConfiguration_def)
  note a = StartEpoch_fails_iff [OF w m, of 4611686018427387903 "idleLoader 9"]
  note b = StartEpoch_fails_iff [OF w m', of 4611686018427387903 "idleLoader 9"]
  have a1: "\<not> isl (StartEpoch 4611686018427387903 (idleLoader 9) (epochConfiguration 2 1 6 20)
            (readerWithoutStreams 1 2))"
    using a by (simp add: readerWithoutStreams_def epochConfiguration_def)
  then obtain t where t: "StartEpoch 4611686018427387903 (idleLoader 9) (epochConfiguration 2 1 6 20)
            (readerWithoutStreams 1 2) = Inr t"
    by (cases "StartEpoch 4611686018427387903 (idleLoader 9) (epochConfiguration 2 1 6 20)
            (readerWithoutStreams 1 2)") auto
  have a2: "m_currEpochSampleCount (projr (StartEpoch 4611686018427387903 (idleLoader 9)
      (epochConfiguration 2 1 6 20) (readerWithoutStreams 1 2))) = 0"
    using a t by simp
  have b1: "is_RuntimeError (StartEpoch 4611686018427387903 (idleLoader 9)
            (epochConfiguration 2 1 5 20) (readerWithoutStreams 1 2))"
    using b by (simp add: readerWithoutStreams_def epochConfiguration_def)
  from w m a1 a2 b1 show ?thesis by blast
qed

text \<open>
  With a new minibatch size of 0 none of the conditions of C8 holds, and the call does
  not succeed: line 404 divides by the minibatch size. With 0 workers the minibatch size
  1 is not divisible by the number of workers, and the call raises nothing: line 379
  divides by the number of workers.
\<close>

theorem StartEpoch_fails_iff_counterexample:
  "StartEpoch 4611686018427387903 (idleLoader 9) (epochConfiguration 1 0 0 8)
     (readerWithoutStreams 0 1) = Inl (Undefined DivisionByZero) \<and>
   \<not> (m_epochSize (readerWithoutStreams 0 1) \<noteq> m_currEpochSampleCount (readerWithoutStreams 0 1) \<or>
      m_workerRank (readerWithoutStreams 0 1) \<noteq> c_workerRank (epochConfiguration 1 0 0 8) \<or>
      m_numberOfWorkers (readerWithoutStreams 0 1) \<noteq> c_numberOfWorkers (epochConfiguration 1 0 0 8) \<or>
      c_minibatchSizeInSamples (epochConfiguration 1 0 0 8) mod
        m_numberOfWorkers (readerWithoutStreams 0 1) \<noteq> 0) \<and>
   StartEpoch 4611686018427387903 (idleLoader 9) (epochConfiguration 0 0 1 8)
     (readerWithoutStreams 0 0) = Inl (Undefined DivisionByZero) \<and>
   c_minibatchSizeInSamples (epochConfiguration 0 0 1 8) mod
     m_numberOfWorkers (readerWithoutStreams 0 0) \<noteq> 0"
  by (simp add: StartEpoch_def epochConfiguration_def readerWithoutStreams_def Let_def)

text \<open>
  C9. When \<^verbatim>\<open>StartEpoch\<close> succeeds, the epoch size it has resolved for the whole job, of
  which the reader's epoch size and flag are the portion, is: for the reserved total
  \<^verbatim>\<open>requestDataSize\<close>, the number of workers times the loader's example count if the
  epoch override is configured and the loader's example count otherwise; and for any
  other total, that total. The product is the \<^verbatim>\<open>size_t\<close> product of the code, which
  is the product of the numbers when that is below \<open>2 ^ 64\<close>.
\<close>

theorem StartEpoch_global_epoch_size:
  assumes "StartEpoch requestDataSize loader config this = Inr t"
  shows "(let examplesCount = GetExamplesCount loader (m_dsLoader this);
              workerCount = m_numberOfWorkers this;
              total = c_totalEpochSizeInSamples config;
              E = (if total = requestDataSize
                   then (if m_epochOverride this then workerCount * examplesCount
                         else examplesCount)
                   else total)
          in globalEpochSize requestDataSize examplesCount config (m_epochOverride this)
               workerCount = E \<and>
             (m_epochSize t, m_appendLastMinibatch t) =
               thisReaderPortion E (c_minibatchSizeInSamples config) workerCount
                 (m_workerRank this) \<and>
             (unat workerCount * unat examplesCount < 2 ^ 64 \<longrightarrow>
                unat (workerCount * examplesCount) = unat workerCount * unat examplesCount))"
proof -
  have "unat (x * y) = unat x * unat y" if "unat x * unat y < 2 ^ 64" for x y :: size_t
    using that unat_mult_lem [of x y] by simp
  then show ?thesis
    using assms
    by (auto simp: StartEpoch_def Let_def split_beta globalEpochSize_def
          UseAllExamplesFromDatasetForEpoch_def split: if_splits)
qed

theorem StartEpoch_global_epoch_size_witness:
  "\<not> isl (StartEpoch 4611686018427387903 (idleLoader 9)
            (epochConfiguration 2 0 4 4611686018427387903)
            ((readerWithoutStreams 0 2)\<lparr>m_epochOverride := True\<rparr>)) \<and>
   globalEpochSize 4611686018427387903 9 (epochConfiguration 2 0 4 4611686018427387903) True 2 = 18 \<and>
   m_epochSize (projr (StartEpoch 4611686018427387903 (idleLoader 9)
            (epochConfiguration 2 0 4 4611686018427387903)
            ((readerWithoutStreams 0 2)\<lparr>m_epochOverride := True\<rparr>))) = 9"
proof -
  let ?reader = "(readerWithoutStreams 0 2)\<lparr>m_epochOverride := True\<rparr>"
  let ?config = "epochConfiguration 2 0 4 4611686018427387903"
  have "\<exists>t. StartEpoch 4611686018427387903 (idleLoader 9) ?config ?reader = Inr t"
    unfolding StartEpoch_Inr_iff
    by (simp add: readerWithoutStreams_def epochConfiguration_def)
  then obtain t where t: "StartEpoch 4611686018427387903 (idleLoader 9) ?config ?reader = Inr t"
    by blast
  have "globalEpochSize 4611686018427387903 9 ?config True 2 = 18 \<and> m_epochSize t = 9"
    using StartEpoch_global_epoch_size [OF t]
    by (simp add: readerWithoutStreams_def epochConfiguration_def idleLoader_def Let_def
          thisReaderPortion_def)
  with t show ?thesis by simp
qed

section \<open>GetNextSequences: the shape of the result\<close>

declare streamLoop.simps [simp del]

lemma setSequence_shape:
  "setSequence data istr ismpl s = Inr data' \<Longrightarrow> map length data' = map length data"
  by (auto simp: setSequence_def map_update list_update_same_conv split: if_splits)

lemma denseStream_shape:
  "denseStream streamDescriptor ismpl istr example data = Inr (istr', example', data') \<Longrightarrow>
   map length data' = map length data"
  by (auto simp: denseStream_def Let_def dest: setSequence_shape split: if_splits sum.splits)

lemma ignoreSequence_shape:
  "ignoreSequence this streamDescriptor ismpl istr data = Inr (s, data') \<Longrightarrow>
   map length data' = map length data"
  by (auto simp: ignoreSequence_def Let_def dest: setSequence_shape
        split: if_splits sum.splits prod.splits)

lemma sparseStream_shape:
  assumes "sparseStream this streamDescriptor ismpl istr example data = Inr (istr', example', data')"
  shows "map length data' = map length data"
proof -
  from assms obtain s data1 data2 where
    1: "ignoreSequence this streamDescriptor ismpl istr data = Inr (s, data1)" and
    2: "map length data2 = map length data1" and
    3: "\<exists>q. setSequence data2 istr ismpl q = Inr data'"
    by (auto simp: sparseStream_def Let_def dest: setSequence_shape
          split: if_splits sum.splits prod.splits option.splits)
  from 3 have "map length data' = map length data2" by (auto dest: setSequence_shape)
  with 1 2 show ?thesis by (auto dest: ignoreSequence_shape)
qed

lemma streamStep_shape:
  "streamStep this ismpl istr iStreamDesc example data = Inr (istr', iStreamDesc', example', data') \<Longrightarrow>
   map length data' = map length data"
  by (auto simp: streamStep_def Let_def dest: denseStream_shape sparseStream_shape
        split: if_splits sum.splits)

lemma streamLoop_shape:
  "streamLoop this ismpl istr iStreamDesc example data = Inr (example', data') \<Longrightarrow>
   map length data' = map length data"
proof (induction this ismpl istr iStreamDesc example data rule: streamLoop.induct)
  case (1 this ismpl istr iStreamDesc example data)
  show ?case
  proof (cases "istr < length (m_inputStreams this)")
    case False
    with "1.prems" show ?thesis by (simp add: streamLoop.simps)
  next
    case True
    with "1.prems" obtain i d e x where
      s: "streamStep this ismpl istr iStreamDesc example data = Inr (i, d, e, x)" and
      l: "streamLoop this ismpl i d e x = Inr (example', data')"
      by (subst (asm) streamLoop.simps) (auto split: sum.splits)
    from "1.IH" [OF True s refl refl refl l] streamStep_shape [OF s] show ?thesis by simp
  qed
qed

lemma sampleLoop_shape:
  "sampleLoop loader this n ismpl dsLoader example data = Inr (dsLoader', example', data') \<Longrightarrow>
   map length data' = map length data"
proof (induction n arbitrary: ismpl dsLoader example data)
  case 0
  then show ?case by simp
next
  case (Suc n)
  then show ?case
    by (auto split: sum.splits prod.splits dest!: streamLoop_shape)
qed

lemma GetNextSequences_Inr:
  assumes "GetNextSequences loader this totalSampleCount = Inr (sequences, this')"
  shows "\<exists>sampleCount endOfEpoch dsLoader' example'.
           minibatchSampleCount this totalSampleCount = Inr (sampleCount, endOfEpoch) \<and>
           m_endOfEpoch sequences = endOfEpoch \<and>
           map length (m_data sequences) =
             replicate (length (m_inputStreams this)) (unat sampleCount) \<and>
           this' = this\<lparr>m_dsLoader := dsLoader', m_example := example',
                        m_currEpochSampleCount :=
                          m_currEpochSampleCount this + scast (ucast sampleCount :: cint)\<rparr>"
  using assms
  by (auto simp: GetNextSequences_def Let_def split: sum.splits prod.splits
        dest!: sampleLoop_shape)

lemma GetNextSequences_Inl:
  "minibatchSampleCount this totalSampleCount = Inl e \<Longrightarrow>
   GetNextSequences loader this totalSampleCount = Inl e"
  by (simp add: GetNextSequences_def)

lemma double_ge_Suc:
  fixes s :: size_t
  assumes "s \<noteq> 0" and "unat s < 2 ^ 63"
  shows "s + 1 \<le> 2 * s"
proof -
  have "0 < unat s" using assms(1) by (simp add: unat_gt_0)
  have a: "unat (s + 1) = unat s + 1"
    using assms(2) by (simp add: unat_word_ariths)
  have b: "unat (2 * s) = 2 * unat s"
    using assms(2) by (simp add: unat_word_ariths)
  show ?thesis using \<open>0 < unat s\<close> by (simp add: word_le_nat_alt a b)
qed

section \<open>The loop over the labels\<close>

lemma labelLoop_undefined:
  "float_to_int x = None \<Longrightarrow>
   labelLoop ig sp oc (x # xs) inz buf idx = Inl (Undefined FloatOutOfIntRange)"
  by simp

lemma labelLoop_ignored:
  "float_to_int x = Some (ignoreLabel d) \<Longrightarrow>
   labelLoop (Some d) sp oc (x # xs) inz (Some b) idx =
     (if inz < length b \<and> inz < length idx
      then labelLoop (Some d) sp oc xs (inz + 1) (Some (b[inz := 0]))
             (idx[inz := ucast (of_nat inz :: size_t)])
      else Inl (Undefined IndexOutOfRange))"
  by simp

lemma labelLoop_label:
  "float_to_int x = Some c \<Longrightarrow> buf = None \<or> Some c \<noteq> map_option ignoreLabel ig \<Longrightarrow>
   labelLoop ig sp oc (x # xs) inz buf idx =
     (if c <s 0 \<or> scast c > oc - 1 then Inl (RuntimeError InvalidChannel)
      else if inz < length idx
      then labelLoop ig sp oc xs (inz + 1) buf (idx[inz := ucast (scast c * sp + of_nat inz)])
      else Inl (Undefined IndexOutOfRange))"
  by (auto simp: Let_def)

lemma labelLoop_cases:
  assumes "labelLoop ig sp oc (x # xs) inz buf idx = Inr (buf', idx')"
  obtains (ignored) d b where "ig = Some d" "buf = Some b" "float_to_int x = Some (ignoreLabel d)"
      "inz < length b" "inz < length idx"
      "labelLoop ig sp oc xs (inz + 1) (Some (b[inz := 0]))
         (idx[inz := ucast (of_nat inz :: size_t)]) = Inr (buf', idx')"
    | (label) c where "float_to_int x = Some c" "buf = None \<or> Some c \<noteq> map_option ignoreLabel ig"
      "\<not> c <s 0" "scast c \<le> oc - 1" "inz < length idx"
      "labelLoop ig sp oc xs (inz + 1) buf (idx[inz := ucast (scast c * sp + of_nat inz)])
         = Inr (buf', idx')"
proof -
  from assms obtain c where c: "float_to_int x = Some c"
    by (cases "float_to_int x") (simp_all add: labelLoop_undefined)
  show thesis
  proof (cases "buf = None \<or> Some c \<noteq> map_option ignoreLabel ig")
    case True
    from assms show ?thesis
      unfolding labelLoop_label [OF c True]
      by (intro label [OF c True]) (auto split: if_splits)
  next
    case False
    then obtain d b where d: "ig = Some d" "buf = Some b" "c = ignoreLabel d"
      by (cases ig; cases buf) auto
    from assms show ?thesis
      using c unfolding d labelLoop_ignored [OF c [unfolded d]]
      by (intro ignored [OF d(1,2)]) (auto simp: d split: if_splits)
  qed
qed

declare labelLoop.simps(2) [simp del]

lemma labelLoop_length:
  "labelLoop ig sp oc xs inz buf idx = Inr (buf', idx') \<Longrightarrow> length idx' = length idx"
proof (induction xs arbitrary: inz buf idx)
  case Nil
  then show ?case by simp
next
  case (Cons x xs)
  from Cons.prems show ?case
  proof (cases rule: labelLoop_cases)
    case (ignored d b)
    from Cons.IH [OF ignored(6)] show ?thesis by simp
  next
    case (label c)
    from Cons.IH [OF label(6)] show ?thesis by simp
  qed
qed

lemma labelLoop_below:
  "labelLoop ig sp oc xs inz buf idx = Inr (buf', idx') \<Longrightarrow> q < inz \<Longrightarrow> idx' ! q = idx ! q"
proof (induction xs arbitrary: inz buf idx)
  case Nil
  then show ?case by simp
next
  case (Cons x xs)
  from Cons.prems(1) show ?case
  proof (cases rule: labelLoop_cases)
    case (ignored d b)
    from Cons.IH [OF ignored(6), of ] Cons.prems(2) show ?thesis by simp
  next
    case (label c)
    from Cons.IH [OF label(6)] Cons.prems(2) show ?thesis by simp
  qed
qed

lemma labelLoop_index:
  "labelLoop ig sp oc xs inz buf idx = Inr (buf', idx') \<Longrightarrow> p < length xs \<Longrightarrow>
   \<exists>c. float_to_int (xs ! p) = Some c \<and>
       (if buf \<noteq> None \<and> Some c = map_option ignoreLabel ig
        then idx' ! (inz + p) = ucast (of_nat (inz + p) :: size_t)
        else idx' ! (inz + p) = ucast (scast c * sp + of_nat (inz + p)) \<and>
             \<not> c <s 0 \<and> scast c \<le> oc - 1)"
proof (induction xs arbitrary: inz buf idx p)
  case Nil
  then show ?case by simp
next
  case (Cons x xs)
  from Cons.prems(1) show ?case
  proof (cases rule: labelLoop_cases)
    case (ignored d b)
    show ?thesis
    proof (cases p)
      case 0
      have "idx' ! inz = (idx[inz := ucast (of_nat inz :: size_t)]) ! inz"
        using labelLoop_below [OF ignored(6), of inz] by simp
      with 0 ignored show ?thesis by simp
    next
      case (Suc p')
      with Cons.prems(2) have "p' < length xs" by simp
      from Cons.IH [OF ignored(6) this] Suc ignored(1,2) show ?thesis by auto
    qed
  next
    case (label c)
    show ?thesis
    proof (cases p)
      case 0
      have "idx' ! inz = (idx[inz := ucast (scast c * sp + of_nat inz)]) ! inz"
        using labelLoop_below [OF label(6), of inz] by simp
      with 0 label show ?thesis by auto
    next
      case (Suc p')
      with Cons.prems(2) have "p' < length xs" by simp
      from Cons.IH [OF label(6) this] Suc show ?thesis by auto
    qed
  qed
qed

lemma labelLoop_buffer_None:
  "labelLoop ig sp oc xs inz None idx = Inr (buf', idx') \<Longrightarrow> buf' = None"
proof (induction xs arbitrary: inz idx)
  case Nil
  then show ?case by simp
next
  case (Cons x xs)
  from Cons.prems show ?case
  proof (cases rule: labelLoop_cases)
    case (ignored d b)
    then show ?thesis by simp
  next
    case (label c)
    from Cons.IH [OF label(6)] show ?thesis .
  qed
qed

lemma labelLoop_buffer:
  "labelLoop ig sp oc xs inz (Some b) idx = Inr (buf', idx') \<Longrightarrow>
   \<exists>b'. buf' = Some b' \<and> length b' = length b \<and>
        (\<forall>q. q < inz \<or> inz + length xs \<le> q \<longrightarrow> b' ! q = b ! q) \<and>
        (\<forall>p<length xs.
           if float_to_int (xs ! p) = map_option ignoreLabel ig
           then b' ! (inz + p) = 0 \<and> inz + p < length b
           else b' ! (inz + p) = b ! (inz + p))"
proof (induction xs arbitrary: inz b idx)
  case Nil
  then show ?case by auto
next
  case (Cons x xs)
  from Cons.prems(1) show ?case
  proof (cases rule: labelLoop_cases)
    case (ignored d b0)
    then have b0: "b0 = b" by simp
    from Cons.IH [OF ignored(6) [unfolded b0]] obtain b' where b0': "buf' = Some b'"
      "length b' = length (b[inz := 0])"
      "\<forall>q. q < inz + 1 \<or> inz + 1 + length xs \<le> q \<longrightarrow> b' ! q = (b[inz := 0]) ! q"
      "\<forall>p<length xs.
           if float_to_int (xs ! p) = map_option ignoreLabel ig
           then b' ! (inz + 1 + p) = 0 \<and> inz + 1 + p < length (b[inz := 0])
           else b' ! (inz + 1 + p) = (b[inz := 0]) ! (inz + 1 + p)"
      by blast
    have b1: "buf' = Some b'" "length b' = length b" using b0'(1,2) by simp_all
    have b2: "b' ! q = (b[inz := 0]) ! q" if "q < inz + 1 \<or> inz + 1 + length xs \<le> q" for q
      using b0'(3) that by blast
    have b3: "if float_to_int (xs ! p) = map_option ignoreLabel ig
           then b' ! (inz + 1 + p) = 0 \<and> inz + 1 + p < length (b[inz := 0])
           else b' ! (inz + 1 + p) = (b[inz := 0]) ! (inz + 1 + p)" if "p < length xs" for p
      using b0'(4) that by blast
    note b' = b1 b2 b3
    have out: "b' ! q = b ! q" if "q < inz \<or> inz + length (x # xs) \<le> q" for q
      using b'(3) [of q] that by auto
    have pos: "if float_to_int ((x # xs) ! p) = map_option ignoreLabel ig
           then b' ! (inz + p) = 0 \<and> inz + p < length b
           else b' ! (inz + p) = b ! (inz + p)" if "p < length (x # xs)" for p
    proof (cases p)
      case 0
      with b'(3) [of inz] ignored show ?thesis by (simp add: b0)
    next
      case (Suc p')
      with that have "p' < length xs" by simp
      from b'(4) [OF this] Suc show ?thesis by (auto split: if_splits)
    qed
    from b'(1,2) out pos show ?thesis by blast
  next
    case (label c)
    from Cons.IH [OF label(6)] obtain b' where b0': "buf' = Some b'" "length b' = length b"
      "\<forall>q. q < inz + 1 \<or> inz + 1 + length xs \<le> q \<longrightarrow> b' ! q = b ! q"
      "\<forall>p<length xs.
           if float_to_int (xs ! p) = map_option ignoreLabel ig
           then b' ! (inz + 1 + p) = 0 \<and> inz + 1 + p < length b
           else b' ! (inz + 1 + p) = b ! (inz + 1 + p)"
      by blast
    have b1: "buf' = Some b'" "length b' = length b" using b0'(1,2) by simp_all
    have b2: "b' ! q = b ! q" if "q < inz + 1 \<or> inz + 1 + length xs \<le> q" for q
      using b0'(3) that by blast
    have b3: "if float_to_int (xs ! p) = map_option ignoreLabel ig
           then b' ! (inz + 1 + p) = 0 \<and> inz + 1 + p < length b
           else b' ! (inz + 1 + p) = b ! (inz + 1 + p)" if "p < length xs" for p
      using b0'(4) that by blast
    note b' = b1 b2 b3
    have out: "b' ! q = b ! q" if "q < inz \<or> inz + length (x # xs) \<le> q" for q
      using b'(3) [of q] that by auto
    have pos: "if float_to_int ((x # xs) ! p) = map_option ignoreLabel ig
           then b' ! (inz + p) = 0 \<and> inz + p < length b
           else b' ! (inz + p) = b ! (inz + p)" if "p < length (x # xs)" for p
    proof (cases p)
      case 0
      with b'(3) [of inz] label show ?thesis by auto
    next
      case (Suc p')
      with that have "p' < length xs" by simp
      from b'(4) [OF this] Suc show ?thesis by (auto split: if_splits)
    qed
    from b'(1,2) out pos show ?thesis by blast
  qed
qed

section \<open>One round of the loop over the streams\<close>

lemma setSequence_Inr:
  assumes "setSequence data istr ismpl s = Inr data'"
  shows "istr < length data" and "ismpl < length (data ! istr)"
    and "data' ! istr ! ismpl = Some s"
    and "\<And>i. i \<noteq> istr \<Longrightarrow> data' ! i = data ! i"
  using assms by (auto simp: setSequence_def split: if_splits)

lemma index_unat:
  fixes c :: cint and sp :: size_t
  assumes c: "\<not> c <s 0" and b: "nat (sint c) * unat sp + p < 2 ^ 32"
  shows "unat (ucast (scast c * sp + of_nat p :: size_t) :: IndexType) = nat (sint c) * unat sp + p"
proof -
  have p: "p < 2 ^ 32" using b by simp
  then have "p < 2 ^ 64" by (rule less_trans) simp
  then have up: "unat (of_nat p :: size_t) = p" by (simp add: unat_of_nat)
  have "nat (sint c) * unat sp + p < 2 ^ 64" using b by (rule less_trans) simp
  then have "unat (scast c * sp + of_nat p :: size_t) = nat (sint c) * unat sp + p"
    by (simp add: unat_word_ariths up unat_scast_nonneg [OF c] mod_simps)
  with b show ?thesis by (simp add: ucast_small)
qed

lemma sparseStream_Inr:
  assumes "sparseStream this sd ismpl istr example data = Inr (istr', example', data')"
    and "m_streamLayout (m_inputStreams this ! istr) = (dims0, dims1, dims2)"
  shows "\<exists>ignoreSeq data1 index ignoreBuffer indicesMemory data2.
     ignoreSequence this sd ismpl istr data = Inr (ignoreSeq, data1) \<and>
     BlobIndexFromName example (datasetName sd) = Inr index \<and>
     index < length (m_blobs example) \<and>
     example' = example\<lparr>m_blobs := (m_blobs example)[index := []]\<rparr> \<and>
     (of_nat (length (m_blobs example ! index)) :: size_t) = dims0 * dims1 \<and>
     labelLoop (ignoreStream sd) (dims0 * dims1) dims2 (m_blobs example ! index) 0
       (map_option m_ownedData ignoreSeq) (replicate (length (m_blobs example ! index)) 0)
       = Inr (ignoreBuffer, indicesMemory) \<and>
     (case (ignoreSeq, ignoreBuffer) of
        (Some s, Some b) \<Rightarrow>
          setSequence data1 (istr + 1) ismpl (DenseSequence (s\<lparr>m_ownedData := b\<rparr>))
      | _ \<Rightarrow> Inr data1) = Inr data2 \<and>
     setSequence data2 istr ismpl
       (SparseSequence
          \<lparr>m_id = of_nat ismpl, m_numberOfSamples = 1,
           m_nnzCounts = [ucast (of_nat (length (m_blobs example ! index)) :: size_t)],
           m_totalNnzCount = ucast (of_nat (length (m_blobs example ! index)) :: size_t),
           m_indicesMemory = indicesMemory,
           m_valuesMemory = replicate (length (m_blobs example ! index)) 1\<rparr>) = Inr data' \<and>
     istr' = (if ignoreStream sd \<noteq> None then istr + 2 else istr + 1)"
  using assms
  by (auto simp: sparseStream_def SwapBlobData_def Let_def
        split: sum.splits prod.splits if_splits)

lemma ignoreSequence_Inr:
  assumes "ignoreSequence this sd ismpl istr data = Inr (ignoreSeq, data1)"
  shows "ignoreStream sd = None \<Longrightarrow> ignoreSeq = None \<and> data1 = data"
    and "ignoreStream sd \<noteq> None \<Longrightarrow>
           m_streamLayout (m_inputStreams this ! (istr + 1)) = (i0, i1, i2) \<Longrightarrow>
           ignoreSeq = Some \<lparr>m_id = of_nat ismpl, m_numberOfSamples = 1,
                             m_sampleLayout = (i0, i1, i2),
                             m_ownedData = replicate (unat (i0 * i1 * i2)) 1\<rparr>"
  using assms
  by (auto simp: ignoreSequence_def Let_def split: if_splits sum.splits prod.splits)

lemma streamStep_sparse_Inr:
  assumes "m_storageType (m_inputStreams this ! istr) \<noteq> dense"
    and "streamStep this ismpl istr iStreamDesc example data =
           Inr (istr', iStreamDesc', example', data')"
  shows "sparseStream this (m_streamDescriptors this ! iStreamDesc) ismpl istr example data =
           Inr (istr', example', data')"
  using assms by (auto simp: streamStep_def Let_def split: if_splits sum.splits)

lemma labelLoop_invalid:
  "labelLoop ig sp oc xs inz buf idx = Inl (RuntimeError InvalidChannel) \<Longrightarrow>
   \<exists>p<length xs. \<exists>c. float_to_int (xs ! p) = Some c \<and>
      (buf = None \<or> Some c \<noteq> map_option ignoreLabel ig) \<and> (c <s 0 \<or> oc - 1 < scast c)"
proof (induction xs arbitrary: inz buf idx)
  case Nil
  then show ?case by simp
next
  case (Cons x xs)
  from Cons.prems obtain c where c: "float_to_int x = Some c"
    by (cases "float_to_int x") (simp_all add: labelLoop_undefined)
  show ?case
  proof (cases "buf = None \<or> Some c \<noteq> map_option ignoreLabel ig")
    case True
    show ?thesis
    proof (cases "c <s 0 \<or> oc - 1 < scast c")
      case bad: True
      with c True have "float_to_int ((x # xs) ! 0) = Some c \<and>
          (buf = None \<or> Some c \<noteq> map_option ignoreLabel ig) \<and> (c <s 0 \<or> oc - 1 < scast c)"
        by simp
      then show ?thesis by (intro exI [of _ 0]) auto
    next
      case False
      with Cons.prems have
        "labelLoop ig sp oc xs (inz + 1) buf (idx[inz := ucast (scast c * sp + of_nat inz)])
           = Inl (RuntimeError InvalidChannel)"
        unfolding labelLoop_label [OF c True] by (auto split: if_splits)
      from Cons.IH [OF this] obtain p c' where "p < length xs" "float_to_int (xs ! p) = Some c'"
        "buf = None \<or> Some c' \<noteq> map_option ignoreLabel ig" "c' <s 0 \<or> oc - 1 < scast c'"
        by blast
      then have "Suc p < length (x # xs) \<and> float_to_int ((x # xs) ! Suc p) = Some c' \<and>
          (buf = None \<or> Some c' \<noteq> map_option ignoreLabel ig) \<and> (c' <s 0 \<or> oc - 1 < scast c')"
        by simp
      then show ?thesis by blast
    qed
  next
    case False
    then obtain d b where d: "ig = Some d" "buf = Some b" "c = ignoreLabel d"
      by (cases ig; cases buf) auto
    from Cons.prems have
      "labelLoop (Some d) sp oc xs (inz + 1) (Some (b[inz := 0]))
         (idx[inz := ucast (of_nat inz :: size_t)]) = Inl (RuntimeError InvalidChannel)"
      unfolding d labelLoop_ignored [OF c [unfolded d]] by (auto split: if_splits)
    from Cons.IH [OF this [folded d(1)]] obtain p c' where "p < length xs"
        "float_to_int (xs ! p) = Some c'"
        "Some c' \<noteq> map_option ignoreLabel ig" "c' <s 0 \<or> oc - 1 < scast c'"
      by auto
    then have "Suc p < length (x # xs) \<and> float_to_int ((x # xs) ! Suc p) = Some c' \<and>
          (buf = None \<or> Some c' \<noteq> map_option ignoreLabel ig) \<and> (c' <s 0 \<or> oc - 1 < scast c')"
      by simp
    then show ?thesis by blast
  qed
qed

lemma streamStep_invalid:
  assumes "m_storageType (m_inputStreams this ! istr) \<noteq> dense"
    and "m_streamLayout (m_inputStreams this ! istr) = (dims0, dims1, dims2)"
    and "streamStep this ismpl istr iStreamDesc example data = Inl (RuntimeError InvalidChannel)"
  shows "\<exists>index ignoreSeq data1.
           ignoreSequence this (m_streamDescriptors this ! iStreamDesc) ismpl istr data
             = Inr (ignoreSeq, data1) \<and>
           BlobIndexFromName example (datasetName (m_streamDescriptors this ! iStreamDesc))
             = Inr index \<and>
           labelLoop (ignoreStream (m_streamDescriptors this ! iStreamDesc)) (dims0 * dims1) dims2
             (m_blobs example ! index) 0 (map_option m_ownedData ignoreSeq)
             (replicate (length (m_blobs example ! index)) 0) = Inl (RuntimeError InvalidChannel)"
proof -
  let ?sd = "m_streamDescriptors this ! iStreamDesc"
  have 1: "ignoreSequence this ?sd ismpl istr data \<noteq> Inl (RuntimeError InvalidChannel)"
    by (auto simp: ignoreSequence_def setSequence_def Let_def split: prod.splits)
  have 2: "SwapBlobData example (datasetName ?sd) [] \<noteq> Inl (RuntimeError InvalidChannel)"
    by (auto simp: SwapBlobData_def BlobIndexFromName_def split: option.splits)
  have 3: "setSequence d i j q \<noteq> Inl (RuntimeError InvalidChannel)" for d i j q
    by (simp add: setSequence_def)
  from assms(1,3) have s: "sparseStream this ?sd ismpl istr example data
      = Inl (RuntimeError InvalidChannel)"
    by (auto simp: streamStep_def Let_def split: if_splits sum.splits)
  from 1 s obtain ignoreSeq data1 where
    i: "ignoreSequence this ?sd ismpl istr data = Inr (ignoreSeq, data1)"
    by (cases "ignoreSequence this ?sd ismpl istr data") (auto simp: sparseStream_def)
  from 2 s i obtain example' blob where
    w: "SwapBlobData example (datasetName ?sd) [] = Inr (example', blob)"
    by (cases "SwapBlobData example (datasetName ?sd) []")
       (auto simp: sparseStream_def assms(2))
  from w obtain index where x: "BlobIndexFromName example (datasetName ?sd) = Inr index"
    "blob = m_blobs example ! index"
    by (auto simp: SwapBlobData_def split: sum.splits if_splits)
  from s i w 3 have "labelLoop (ignoreStream ?sd) (dims0 * dims1) dims2 blob 0
       (map_option m_ownedData ignoreSeq) (replicate (length blob) 0)
       = Inl (RuntimeError InvalidChannel)"
    by (auto simp: sparseStream_def assms(2) Let_def
          split: if_splits sum.splits prod.splits option.splits)
  with i x show ?thesis by blast
qed

section \<open>The consumed-sample counter\<close>

text \<open>
  When the number of samples of a call is below \<open>2 ^ 31 - 1\<close>, a call that returns keeps
  the counter within the epoch size and marks the end of the epoch exactly when the
  counter has reached it.
\<close>

lemma sampleLoop_without_streams:
  "m_inputStreams this = [] \<Longrightarrow>
   sampleLoop (idleLoader k) this n ismpl dsLoader example data = Inr (dsLoader, example, data)"
  by (induction n arbitrary: ismpl) (simp_all add: streamLoop.simps idleLoader_def)

lemma GetNextSequences_counter:
  assumes ok: "GetNextSequences loader this totalSampleCount = Inr (sequences, this')"
    and inv: "m_currEpochSampleCount this \<le> m_epochSize this"
    and small: "unat (totalSampleCount div m_numberOfWorkers this) < 2 ^ 31 - 1"
  shows "m_epochSize this' = m_epochSize this \<and>
         m_currEpochSampleCount this' \<le> m_epochSize this' \<and>
         (m_endOfEpoch sequences \<longleftrightarrow> m_currEpochSampleCount this' = m_epochSize this')"
proof -
  let ?s = "totalSampleCount div m_numberOfWorkers this"
  let ?c = "m_currEpochSampleCount this" and ?S = "m_epochSize this"
  from GetNextSequences_Inr [OF ok] obtain n dsLoader' example' where
    n: "minibatchSampleCount this totalSampleCount = Inr (n, m_endOfEpoch sequences)" and
    t: "this' = this\<lparr>m_dsLoader := dsLoader', m_example := example',
                      m_currEpochSampleCount := ?c + scast (ucast n :: cint)\<rparr>"
    by blast
  have rem: "unat (?S - ?c) = unat ?S - unat ?c" and le: "unat ?c \<le> unat ?S"
    using inv by (simp_all add: unat_sub word_le_nat_alt)
  have s1: "unat (?s + 1) = unat ?s + 1" and s2: "unat (2 * ?s) = 2 * unat ?s"
    using small by (simp_all add: unat_word_ariths)
  from n have br:
    "(m_appendLastMinibatch this \<and> ?S - ?c = ?s + 1 \<and> n = ?S - ?c \<and> m_endOfEpoch sequences) \<or>
     (\<not> m_appendLastMinibatch this \<and> ?S - ?c \<le> ?s \<and> n = ?S - ?c \<and> m_endOfEpoch sequences) \<or>
     (n = ?s \<and> \<not> m_endOfEpoch sequences \<and>
      (\<not> ?S - ?c \<le> 2 * ?s \<or> \<not> ?S - ?c \<le> ?s))"
    by (auto simp: minibatchSampleCount_def Let_def split: if_splits)
  have a1: "unat (?S - ?c) \<le> unat ?s + 1" if "?S - ?c = ?s + 1"
    using that s1 by simp
  have a2: "unat (?S - ?c) \<le> unat ?s + 1" if "?S - ?c \<le> ?s"
    using that by (simp add: word_le_nat_alt)
  have a3: "unat ?s < unat (?S - ?c)" if "\<not> ?S - ?c \<le> 2 * ?s"
    using that s2 by (simp add: word_le_nat_alt)
  have a4: "unat ?s < unat (?S - ?c)" if "\<not> ?S - ?c \<le> ?s"
    using that by (simp add: word_le_nat_alt)
  from br a1 a2 a3 a4 consider
      (last) "n = ?S - ?c" "m_endOfEpoch sequences" "unat (?S - ?c) \<le> unat ?s + 1"
    | (full) "n = ?s" "\<not> m_endOfEpoch sequences" "unat ?s < unat (?S - ?c)"
    by blast
  then show ?thesis
  proof cases
    case last
    then have "unat n < 2 ^ 31" using small by simp
    then have "scast (ucast n :: cint) = n" by (rule scast_ucast_small)
    with last t show ?thesis by simp
  next
    case full
    then have "unat n < 2 ^ 31" using small by simp
    then have c: "scast (ucast n :: cint) = n" by (rule scast_ucast_small)
    have "unat ?c + unat ?s < unat ?S" using full(3) rem le by linarith
    moreover have "unat ?S < 2 ^ 64" using unsigned_less [of ?S] by simp
    ultimately have "unat (?c + ?s) = unat ?c + unat ?s" "unat ?c + unat ?s < unat ?S"
      by (simp_all add: unat_word_ariths)
    then have "?c + ?s < ?S" by (simp add: word_less_nat_alt)
    with full t c show ?thesis by auto
  qed
qed

text \<open>
  C10, where the code departs from it. One worker starts an epoch of \<open>2 ^ 31\<close> samples
  with a minibatch size of \<open>2 ^ 31\<close>. \<^verbatim>\<open>GetNextSequences\<close> returns with the end of the
  epoch marked, but \<^verbatim>\<open>static_cast<int>(sampleCount)\<close> is negative, and the counter
  becomes \<open>2 ^ 64 - 2 ^ 31\<close>: it exceeds the epoch size, and the next \<^verbatim>\<open>StartEpoch\<close>
  raises the fatal error of line 364.
\<close>

theorem GetNextSequences_counter_truncated:
  "StartEpoch 4611686018427387903 (idleLoader 9) (epochConfiguration 1 0 2147483648 2147483648)
     (readerWithoutStreams 0 1) =
     Inr ((readerWithoutStreams 0 1)\<lparr>m_minibatchSize := 2147483648, m_epochSize := 2147483648\<rparr>) \<and>
   GetNextSequences (idleLoader 9)
     ((readerWithoutStreams 0 1)\<lparr>m_minibatchSize := 2147483648, m_epochSize := 2147483648\<rparr>)
     2147483648 =
     Inr (\<lparr>m_data = [], m_endOfEpoch = True\<rparr>,
          (readerWithoutStreams 0 1)\<lparr>m_minibatchSize := 2147483648, m_epochSize := 2147483648,
             m_currEpochSampleCount := 18446744071562067968\<rparr>) \<and>
   StartEpoch 4611686018427387903 (idleLoader 9) (epochConfiguration 1 0 2147483648 2147483648)
     ((readerWithoutStreams 0 1)\<lparr>m_minibatchSize := 2147483648, m_epochSize := 2147483648,
             m_currEpochSampleCount := 18446744071562067968\<rparr>) =
     Inl (RuntimeError EpochNotFinished)"
proof -
  have c: "(scast (ucast (2147483648 :: size_t) :: cint) :: size_t) = 18446744071562067968"
    by simp
  show ?thesis
    by (simp add: StartEpoch_def GetNextSequences_def minibatchSampleCount_def
          sampleLoop_without_streams readerWithoutStreams_def epochConfiguration_def
          globalEpochSize_def UseAllExamplesFromDatasetForEpoch_def thisReaderPortion_def
          Let_def c)
qed

section \<open>One round at a dense stream\<close>

text \<open>
  When a round of the stream loop at a dense stream succeeds, the descriptor has no
  ignore sub-stream, and the sequence stored at \<^verbatim>\<open>m_data[istr][ismpl]\<close> is a dense
  sequence whose buffer is, element for element, the buffer the adapter held for the
  descriptor's blob immediately before the swap (the adapter is left with the empty
  vector of the new sequence); its \<^verbatim>\<open>m_numberOfSamples\<close> is 1 and its sample layout is
  the adapter's shape of that blob with the order of the dimensions reversed.
\<close>

lemma streamStep_dense:
  assumes "m_storageType (m_inputStreams this ! istr) = dense"
    and "streamStep this ismpl istr iStreamDesc example data =
           Inr (istr', iStreamDesc', example', data')"
  shows "\<exists>index sequence.
           ignoreStream (m_streamDescriptors this ! iStreamDesc) = None \<and>
           BlobIndexFromName example (datasetName (m_streamDescriptors this ! iStreamDesc))
             = Inr index \<and>
           index < length (m_blobs example) \<and>
           data' ! istr ! ismpl = Some (DenseSequence sequence) \<and>
           m_ownedData sequence = m_blobs example ! index \<and>
           m_blobs example' = (m_blobs example)[index := []] \<and>
           m_numberOfSamples sequence = 1 \<and>
           m_sampleLayout sequence = TensorShape_of (reverse3 (m_blob_shapes example ! index)) \<and>
           istr' = istr + 1"
  using assms
  by (auto simp: streamStep_def denseStream_def GetBlobShape_def SwapBlobData_def Let_def
        dest!: setSequence_Inr(3)
        split: sum.splits prod.splits if_splits)

section \<open>One round at a sparse stream\<close>

text \<open>
  When a round of the stream loop at a sparse stream of layout
  \<open>(dims0, dims1, dims2)\<close> succeeds, the label buffer taken from the adapter has
  \<open>dims0 * dims1\<close> elements (with any other number the round fails), and the sequence
  stored at \<^verbatim>\<open>m_data[istr][ismpl]\<close> is a sparse sequence with one index and one value
  per position: all values are 1, the nonzero count is the spatial size, and at every
  position whose label \<open>c\<close> is not matched by an ignore label the index is
  \<open>c * spatialSize + position\<close>, computed in \<^verbatim>\<open>size_t\<close> and cast to \<^verbatim>\<open>IndexType\<close>, which
  is that number whenever it is below \<open>2 ^ 32\<close>. For the labels \<open>[2, 0, 1]\<close> with
  spatial size 3 and 3 classes the indices are \<open>[6, 1, 5]\<close>.
\<close>

lemma streamStep_sparse:
  assumes sp: "m_storageType (m_inputStreams this ! istr) \<noteq> dense"
    and lay: "m_streamLayout (m_inputStreams this ! istr) = (dims0, dims1, dims2)"
  shows "(\<forall>istr' iStreamDesc' example' data'.
            streamStep this ismpl istr iStreamDesc example data =
              Inr (istr', iStreamDesc', example', data') \<longrightarrow>
            (\<exists>index sequence.
               BlobIndexFromName example (datasetName (m_streamDescriptors this ! iStreamDesc))
                 = Inr index \<and>
               index < length (m_blobs example) \<and>
               data' ! istr ! ismpl = Some (SparseSequence sequence) \<and>
               (let labels = m_blobs example ! index; spatialSize = dims0 * dims1
                in of_nat (length labels) = spatialSize \<and>
                   length (m_indicesMemory sequence) = length labels \<and>
                   m_valuesMemory sequence = replicate (length labels) 1 \<and>
                   m_nnzCounts sequence = [ucast spatialSize] \<and>
                   m_totalNnzCount sequence = ucast spatialSize \<and>
                   m_numberOfSamples sequence = 1 \<and>
                   (\<forall>p<length labels.
                      \<exists>c. float_to_int (labels ! p) = Some c \<and>
                          (Some c \<noteq> map_option ignoreLabel
                                       (ignoreStream (m_streamDescriptors this ! iStreamDesc)) \<longrightarrow>
                             m_indicesMemory sequence ! p = ucast (scast c * spatialSize + of_nat p) \<and>
                             0 \<le> sint c \<and> scast c \<le> dims2 - 1 \<and>
                             (nat (sint c) * unat spatialSize + p < 2 ^ 32 \<longrightarrow>
                                unat (m_indicesMemory sequence ! p) =
                                  nat (sint c) * unat spatialSize + p)))))) \<and>
         (\<forall>index.
            BlobIndexFromName example (datasetName (m_streamDescriptors this ! iStreamDesc))
              = Inr index \<longrightarrow>
            (of_nat (length (m_blobs example ! index)) :: size_t) \<noteq> dims0 * dims1 \<longrightarrow>
            isl (streamStep this ismpl istr iStreamDesc example data)) \<and>
         labelLoop None 3 3 [2, 0, 1] 0 None [0, 0, 0] = Inr (None, [6, 1, 5])"
proof -
  let ?sd = "m_streamDescriptors this ! iStreamDesc"
  have main: "\<exists>index sequence.
               BlobIndexFromName example (datasetName ?sd) = Inr index \<and>
               index < length (m_blobs example) \<and>
               data' ! istr ! ismpl = Some (SparseSequence sequence) \<and>
               (let labels = m_blobs example ! index; spatialSize = dims0 * dims1
                in of_nat (length labels) = spatialSize \<and>
                   length (m_indicesMemory sequence) = length labels \<and>
                   m_valuesMemory sequence = replicate (length labels) 1 \<and>
                   m_nnzCounts sequence = [ucast spatialSize] \<and>
                   m_totalNnzCount sequence = ucast spatialSize \<and>
                   m_numberOfSamples sequence = 1 \<and>
                   (\<forall>p<length labels.
                      \<exists>c. float_to_int (labels ! p) = Some c \<and>
                          (Some c \<noteq> map_option ignoreLabel (ignoreStream ?sd) \<longrightarrow>
                             m_indicesMemory sequence ! p = ucast (scast c * spatialSize + of_nat p) \<and>
                             0 \<le> sint c \<and> scast c \<le> dims2 - 1 \<and>
                             (nat (sint c) * unat spatialSize + p < 2 ^ 32 \<longrightarrow>
                                unat (m_indicesMemory sequence ! p) =
                                  nat (sint c) * unat spatialSize + p))))"
    if step: "streamStep this ismpl istr iStreamDesc example data =
              Inr (istr', iStreamDesc', example', data')"
    for istr' iStreamDesc' example' data'
  proof -
    from sparseStream_Inr [OF streamStep_sparse_Inr [OF sp step] lay]
    obtain ignoreSeq data1 index ignoreBuffer indicesMemory data2 where
      ign: "ignoreSequence this ?sd ismpl istr data = Inr (ignoreSeq, data1)" and
      idx: "BlobIndexFromName example (datasetName ?sd) = Inr index"
           "index < length (m_blobs example)" and
      size: "(of_nat (length (m_blobs example ! index)) :: size_t) = dims0 * dims1" and
      loop: "labelLoop (ignoreStream ?sd) (dims0 * dims1) dims2 (m_blobs example ! index) 0
               (map_option m_ownedData ignoreSeq)
               (replicate (length (m_blobs example ! index)) 0) = Inr (ignoreBuffer, indicesMemory)" and
      set: "setSequence data2 istr ismpl
              (SparseSequence
                 \<lparr>m_id = of_nat ismpl, m_numberOfSamples = 1,
                  m_nnzCounts = [ucast (of_nat (length (m_blobs example ! index)) :: size_t)],
                  m_totalNnzCount = ucast (of_nat (length (m_blobs example ! index)) :: size_t),
                  m_indicesMemory = indicesMemory,
                  m_valuesMemory = replicate (length (m_blobs example ! index)) 1\<rparr>) = Inr data'"
      by blast
    let ?labels = "m_blobs example ! index"
    have len: "length indicesMemory = length ?labels"
      using labelLoop_length [OF loop] by simp
    have pos: "\<exists>c. float_to_int (?labels ! p) = Some c \<and>
                 (Some c \<noteq> map_option ignoreLabel (ignoreStream ?sd) \<longrightarrow>
                    indicesMemory ! p = ucast (scast c * (dims0 * dims1) + of_nat p) \<and>
                    0 \<le> sint c \<and> scast c \<le> dims2 - 1 \<and>
                    (nat (sint c) * unat (dims0 * dims1) + p < 2 ^ 32 \<longrightarrow>
                       unat (indicesMemory ! p) = nat (sint c) * unat (dims0 * dims1) + p))"
      if p: "p < length ?labels" for p
    proof -
      from labelLoop_index [OF loop p] obtain c where
        c: "float_to_int (?labels ! p) = Some c" and
        r: "if map_option m_ownedData ignoreSeq \<noteq> None \<and>
               Some c = map_option ignoreLabel (ignoreStream ?sd)
            then indicesMemory ! (0 + p) = ucast (of_nat (0 + p) :: size_t)
            else indicesMemory ! (0 + p) = ucast (scast c * (dims0 * dims1) + of_nat (0 + p)) \<and>
                 \<not> c <s 0 \<and> scast c \<le> dims2 - 1"
        by blast
      have "indicesMemory ! p = ucast (scast c * (dims0 * dims1) + of_nat p) \<and>
            0 \<le> sint c \<and> scast c \<le> dims2 - 1 \<and>
            (nat (sint c) * unat (dims0 * dims1) + p < 2 ^ 32 \<longrightarrow>
               unat (indicesMemory ! p) = nat (sint c) * unat (dims0 * dims1) + p)"
        if ne: "Some c \<noteq> map_option ignoreLabel (ignoreStream ?sd)"
      proof -
        from r ne have i: "indicesMemory ! p = ucast (scast c * (dims0 * dims1) + of_nat p)"
          and n: "\<not> c <s 0" and u: "scast c \<le> dims2 - 1"
          by (simp_all split: if_splits)
        from n have "0 \<le> sint c" by (simp add: word_sless_alt)
        with i u index_unat [OF n] show ?thesis by simp
      qed
      with c show ?thesis by blast
    qed
    let ?sequence = "\<lparr>m_id = of_nat ismpl, m_numberOfSamples = 1,
                  m_nnzCounts = [ucast (of_nat (length ?labels) :: size_t)],
                  m_totalNnzCount = ucast (of_nat (length ?labels) :: size_t),
                  m_indicesMemory = indicesMemory,
                  m_valuesMemory = replicate (length ?labels) 1\<rparr>"
    have "data' ! istr ! ismpl = Some (SparseSequence ?sequence)"
      by (rule setSequence_Inr(3) [OF set])
    with idx size len pos show ?thesis
      unfolding Let_def by (intro exI [of _ index] exI [of _ ?sequence]) simp
  qed
  have fatal: "isl (streamStep this ismpl istr iStreamDesc example data)"
    if idx: "BlobIndexFromName example (datasetName ?sd) = Inr index"
      and ne: "(of_nat (length (m_blobs example ! index)) :: size_t) \<noteq> dims0 * dims1"
    for index
  proof (cases "streamStep this ismpl istr iStreamDesc example data")
    case (Inl e)
    then show ?thesis by simp
  next
    case (Inr r)
    obtain a b c d where "r = (a, b, c, d)" by (cases r)
    from main [OF Inr [unfolded this]] idx ne show ?thesis by (auto simp: Let_def)
  qed
  have ex: "labelLoop None 3 3 [2, 0, 1] 0 None [0, 0, 0] = Inr (None, [6, 1, 5])"
    by (simp add: labelLoop.simps float_to_int_def word_sless_alt Let_def)
  from main fatal ex show ?thesis by blast
qed

text \<open>
  At a sparse stream whose descriptor has an ignore sub-stream with
  label \<open>ignoreLabel ig\<close>: when a round of the stream loop succeeds, the sequence stored
  at \<^verbatim>\<open>m_data[istr + 1][ismpl]\<close> is a dense mask of the ignore stream's layout that holds
  0 at every position whose label is the ignore label and 1 everywhere else; at those
  positions the sparse index is the position itself (the slot of channel 0, in range
  when there is at least one channel); and every other label is in
  \<open>[0, outChannels)\<close>. With at least one channel, the round fails whenever some label
  is not the ignore label and lies outside \<open>[0, outChannels)\<close>; and the fatal error
  for an invalid channel is raised only when there is such a label. For the ignore label
  2 and the labels \<open>[2, 1, 0]\<close> the mask becomes \<open>[0, 1, 1]\<close>.
\<close>

lemma streamStep_sparse_ignore:
  assumes sp: "m_storageType (m_inputStreams this ! istr) \<noteq> dense"
    and lay: "m_streamLayout (m_inputStreams this ! istr) = (dims0, dims1, dims2)"
    and ig: "ignoreStream (m_streamDescriptors this ! iStreamDesc) = Some ig"
    and ilay: "m_streamLayout (m_inputStreams this ! (istr + 1)) =
                 (ignoreDims0, ignoreDims1, ignoreDims2)"
  shows "(\<forall>istr' iStreamDesc' example' data'.
            streamStep this ismpl istr iStreamDesc example data =
              Inr (istr', iStreamDesc', example', data') \<longrightarrow>
            (\<exists>index sequence mask.
               BlobIndexFromName example (datasetName (m_streamDescriptors this ! iStreamDesc))
                 = Inr index \<and>
               data' ! istr ! ismpl = Some (SparseSequence sequence) \<and>
               data' ! (istr + 1) ! ismpl = Some (DenseSequence mask) \<and>
               istr' = istr + 2 \<and>
               (let labels = m_blobs example ! index
                in m_sampleLayout mask = (ignoreDims0, ignoreDims1, ignoreDims2) \<and>
                   m_numberOfSamples mask = 1 \<and>
                   length (m_ownedData mask) = unat (ignoreDims0 * ignoreDims1 * ignoreDims2) \<and>
                   (\<forall>q<length (m_ownedData mask).
                      m_ownedData mask ! q =
                        (if q < length labels \<and> float_to_int (labels ! q) = Some (ignoreLabel ig)
                         then 0 else 1)) \<and>
                   (\<forall>p<length labels.
                      float_to_int (labels ! p) = Some (ignoreLabel ig) \<longrightarrow>
                        p < length (m_ownedData mask) \<and>
                        m_indicesMemory sequence ! p = ucast (of_nat p :: size_t) \<and>
                        (length labels < 2 ^ 64 \<longrightarrow> dims2 \<noteq> 0 \<longrightarrow>
                           p < unat (dims0 * dims1) * unat dims2)) \<and>
                   (\<forall>p<length labels. \<forall>c.
                      float_to_int (labels ! p) = Some c \<longrightarrow> c \<noteq> ignoreLabel ig \<longrightarrow>
                        0 \<le> sint c \<and> scast c \<le> dims2 - 1)))) \<and>
         (dims2 \<noteq> 0 \<longrightarrow>
            (\<forall>index p c.
               BlobIndexFromName example (datasetName (m_streamDescriptors this ! iStreamDesc))
                 = Inr index \<longrightarrow>
               p < length (m_blobs example ! index) \<longrightarrow>
               float_to_int (m_blobs example ! index ! p) = Some c \<longrightarrow>
               c \<noteq> ignoreLabel ig \<longrightarrow> sint c < 0 \<or> dims2 \<le> scast c \<longrightarrow>
               isl (streamStep this ismpl istr iStreamDesc example data))) \<and>
         (streamStep this ismpl istr iStreamDesc example data = Inl (RuntimeError InvalidChannel) \<longrightarrow>
            (\<exists>index p c.
               BlobIndexFromName example (datasetName (m_streamDescriptors this ! iStreamDesc))
                 = Inr index \<and>
               p < length (m_blobs example ! index) \<and>
               float_to_int (m_blobs example ! index ! p) = Some c \<and>
               c \<noteq> ignoreLabel ig \<and> (sint c < 0 \<or> dims2 - 1 < scast c))) \<and>
         labelLoop (Some \<lparr>ignoreStreamName = ''ignore'', ignoreLabel = 2\<rparr>) 3 3 [2, 1, 0] 0
           (Some [1, 1, 1]) [0, 0, 0] = Inr (Some [0, 1, 1], [0, 4, 2])"
proof -
  let ?sd = "m_streamDescriptors this ! iStreamDesc"
  let ?n = "unat (ignoreDims0 * ignoreDims1 * ignoreDims2)"
  let ?mask0 = "\<lparr>m_id = of_nat ismpl, m_numberOfSamples = 1,
                 m_sampleLayout = (ignoreDims0, ignoreDims1, ignoreDims2),
                 m_ownedData = replicate ?n (1 :: float)\<rparr>"
  have main: "\<exists>index sequence mask.
               BlobIndexFromName example (datasetName ?sd) = Inr index \<and>
               data' ! istr ! ismpl = Some (SparseSequence sequence) \<and>
               data' ! (istr + 1) ! ismpl = Some (DenseSequence mask) \<and>
               istr' = istr + 2 \<and>
               (let labels = m_blobs example ! index
                in m_sampleLayout mask = (ignoreDims0, ignoreDims1, ignoreDims2) \<and>
                   m_numberOfSamples mask = 1 \<and>
                   length (m_ownedData mask) = ?n \<and>
                   (\<forall>q<length (m_ownedData mask).
                      m_ownedData mask ! q =
                        (if q < length labels \<and> float_to_int (labels ! q) = Some (ignoreLabel ig)
                         then 0 else 1)) \<and>
                   (\<forall>p<length labels.
                      float_to_int (labels ! p) = Some (ignoreLabel ig) \<longrightarrow>
                        p < length (m_ownedData mask) \<and>
                        m_indicesMemory sequence ! p = ucast (of_nat p :: size_t) \<and>
                        (length labels < 2 ^ 64 \<longrightarrow> dims2 \<noteq> 0 \<longrightarrow>
                           p < unat (dims0 * dims1) * unat dims2)) \<and>
                   (\<forall>p<length labels. \<forall>c.
                      float_to_int (labels ! p) = Some c \<longrightarrow> c \<noteq> ignoreLabel ig \<longrightarrow>
                        0 \<le> sint c \<and> scast c \<le> dims2 - 1))"
    if step: "streamStep this ismpl istr iStreamDesc example data =
              Inr (istr', iStreamDesc', example', data')"
    for istr' iStreamDesc' example' data'
  proof -
    from sparseStream_Inr [OF streamStep_sparse_Inr [OF sp step] lay]
    obtain ignoreSeq data1 index ignoreBuffer indicesMemory data2 where
      ign: "ignoreSequence this ?sd ismpl istr data = Inr (ignoreSeq, data1)" and
      idx: "BlobIndexFromName example (datasetName ?sd) = Inr index" and
      size: "(of_nat (length (m_blobs example ! index)) :: size_t) = dims0 * dims1" and
      loop: "labelLoop (ignoreStream ?sd) (dims0 * dims1) dims2 (m_blobs example ! index) 0
               (map_option m_ownedData ignoreSeq)
               (replicate (length (m_blobs example ! index)) 0) = Inr (ignoreBuffer, indicesMemory)" and
      set2: "(case (ignoreSeq, ignoreBuffer) of
                (Some s, Some b) \<Rightarrow>
                  setSequence data1 (istr + 1) ismpl (DenseSequence (s\<lparr>m_ownedData := b\<rparr>))
              | _ \<Rightarrow> Inr data1) = Inr data2" and
      set3: "setSequence data2 istr ismpl
              (SparseSequence
                 \<lparr>m_id = of_nat ismpl, m_numberOfSamples = 1,
                  m_nnzCounts = [ucast (of_nat (length (m_blobs example ! index)) :: size_t)],
                  m_totalNnzCount = ucast (of_nat (length (m_blobs example ! index)) :: size_t),
                  m_indicesMemory = indicesMemory,
                  m_valuesMemory = replicate (length (m_blobs example ! index)) 1\<rparr>) = Inr data'" and
      nxt: "istr' = (if ignoreStream ?sd \<noteq> None then istr + 2 else istr + 1)"
      by blast
    let ?labels = "m_blobs example ! index"
    let ?sequence = "\<lparr>m_id = of_nat ismpl, m_numberOfSamples = 1,
                  m_nnzCounts = [ucast (of_nat (length ?labels) :: size_t)],
                  m_totalNnzCount = ucast (of_nat (length ?labels) :: size_t),
                  m_indicesMemory = indicesMemory,
                  m_valuesMemory = replicate (length ?labels) (1 :: float)\<rparr>"
    have seq: "ignoreSeq = Some ?mask0"
      using ignoreSequence_Inr(2) [OF ign _ ilay] ig by simp
    from loop have loop': "labelLoop (Some ig) (dims0 * dims1) dims2 ?labels 0
               (Some (replicate ?n 1)) (replicate (length ?labels) 0)
               = Inr (ignoreBuffer, indicesMemory)"
      by (simp add: seq ig)
    from labelLoop_buffer [OF loop'] obtain b' where
      b: "ignoreBuffer = Some b'" "length b' = ?n" and
      out: "\<forall>q. q < 0 \<or> 0 + length ?labels \<le> q \<longrightarrow> b' ! q = replicate ?n (1 :: float) ! q" and
      at: "\<forall>p<length ?labels.
             if float_to_int (?labels ! p) = map_option ignoreLabel (Some ig)
             then b' ! (0 + p) = 0 \<and> 0 + p < length (replicate ?n (1 :: float))
             else b' ! (0 + p) = replicate ?n (1 :: float) ! (0 + p)"
      by auto
    let ?mask = "?mask0\<lparr>m_ownedData := b'\<rparr>"
    from set2 have set2': "setSequence data1 (istr + 1) ismpl (DenseSequence ?mask) = Inr data2"
      by (simp add: seq b)
    have d1: "data' ! istr ! ismpl = Some (SparseSequence ?sequence)"
      by (rule setSequence_Inr(3) [OF set3])
    have "data' ! (istr + 1) = data2 ! (istr + 1)"
      by (rule setSequence_Inr(4) [OF set3]) simp
    then have d2: "data' ! (istr + 1) ! ismpl = Some (DenseSequence ?mask)"
      using setSequence_Inr(3) [OF set2'] by simp
    have vals: "b' ! q = (if q < length ?labels \<and>
                                float_to_int (?labels ! q) = Some (ignoreLabel ig) then 0 else 1)"
      if q: "q < length b'" for q
    proof (cases "q < length ?labels")
      case True
      with at have "if float_to_int (?labels ! q) = Some (ignoreLabel ig)
             then b' ! q = 0 \<and> q < ?n else b' ! q = replicate ?n (1 :: float) ! q"
        by auto
      with True q b(2) show ?thesis by (auto split: if_splits)
    next
      case False
      with out have "b' ! q = replicate ?n (1 :: float) ! q" by auto
      with False q b(2) show ?thesis by simp
    qed
    have ignored: "p < length b' \<and> indicesMemory ! p = ucast (of_nat p :: size_t) \<and>
                   (length ?labels < 2 ^ 64 \<longrightarrow> dims2 \<noteq> 0 \<longrightarrow>
                      p < unat (dims0 * dims1) * unat dims2)"
      if p: "p < length ?labels" and l: "float_to_int (?labels ! p) = Some (ignoreLabel ig)" for p
    proof -
      from at p l have "p < ?n" by auto
      moreover from labelLoop_index [OF loop' p] l
      have "indicesMemory ! p = ucast (of_nat p :: size_t)" by auto
      moreover have "p < unat (dims0 * dims1) * unat dims2"
        if "length ?labels < 2 ^ 64" "dims2 \<noteq> 0"
      proof -
        from that(1) have "unat (of_nat (length ?labels) :: size_t) = length ?labels"
          by (simp add: unat_of_nat)
        with size have "unat (dims0 * dims1) = length ?labels" by simp
        moreover from that(2) have "0 < unat dims2" by (simp add: unat_gt_0)
        ultimately show ?thesis using p
          by (metis One_nat_def Suc_leI less_le_trans mult.right_neutral mult_le_mono2)
      qed
      ultimately show ?thesis using b(2) by simp
    qed
    have labelled: "0 \<le> sint c \<and> scast c \<le> dims2 - 1"
      if p: "p < length ?labels" and l: "float_to_int (?labels ! p) = Some c"
        and ne: "c \<noteq> ignoreLabel ig" for p c
      using labelLoop_index [OF loop' p] l ne by (auto simp: word_sless_alt)
    from idx d1 d2 nxt ig b(2) vals ignored labelled show ?thesis
      unfolding Let_def
      by (intro exI [of _ index] exI [of _ ?sequence] exI [of _ ?mask]) simp
  qed
  have fails: "isl (streamStep this ismpl istr iStreamDesc example data)"
    if oc: "dims2 \<noteq> 0"
      and idx: "BlobIndexFromName example (datasetName ?sd) = Inr index"
      and p: "p < length (m_blobs example ! index)"
      and l: "float_to_int (m_blobs example ! index ! p) = Some c"
      and ne: "c \<noteq> ignoreLabel ig" and bad: "sint c < 0 \<or> dims2 \<le> scast c"
    for index p c
  proof (cases "streamStep this ismpl istr iStreamDesc example data")
    case (Inl e)
    then show ?thesis by simp
  next
    case (Inr r)
    obtain a b c' d where "r = (a, b, c', d)" by (cases r)
    from main [OF Inr [unfolded this]] idx p l ne
    have "0 \<le> sint c" "scast c \<le> dims2 - 1" by (auto simp: Let_def)
    moreover have "\<not> dims2 - 1 < (scast c :: size_t)" using calculation(2) by simp
    ultimately have False using bad gt_minus_one_iff [OF oc, of "scast c"] by auto
    then show ?thesis ..
  qed
  have only: "\<exists>index p c.
               BlobIndexFromName example (datasetName ?sd) = Inr index \<and>
               p < length (m_blobs example ! index) \<and>
               float_to_int (m_blobs example ! index ! p) = Some c \<and>
               c \<noteq> ignoreLabel ig \<and> (sint c < 0 \<or> dims2 - 1 < scast c)"
    if "streamStep this ismpl istr iStreamDesc example data = Inl (RuntimeError InvalidChannel)"
  proof -
    from streamStep_invalid [OF sp lay that] obtain index ignoreSeq data1 where
      ign: "ignoreSequence this ?sd ismpl istr data = Inr (ignoreSeq, data1)" and
      idx: "BlobIndexFromName example (datasetName ?sd) = Inr index" and
      loop: "labelLoop (ignoreStream ?sd) (dims0 * dims1) dims2 (m_blobs example ! index) 0
             (map_option m_ownedData ignoreSeq)
             (replicate (length (m_blobs example ! index)) 0) = Inl (RuntimeError InvalidChannel)"
      by blast
    have seq: "ignoreSeq = Some ?mask0"
      using ignoreSequence_Inr(2) [OF ign _ ilay] ig by simp
    from labelLoop_invalid [OF loop] obtain p c where
      "p < length (m_blobs example ! index)" "float_to_int (m_blobs example ! index ! p) = Some c"
      "Some c \<noteq> map_option ignoreLabel (ignoreStream ?sd)" "c <s 0 \<or> dims2 - 1 < scast c"
      by (auto simp: seq)
    with idx ig show ?thesis by (auto simp: word_sless_alt)
  qed
  have ex: "labelLoop (Some \<lparr>ignoreStreamName = ''ignore'', ignoreLabel = 2\<rparr>) 3 3 [2, 1, 0] 0
           (Some [1, 1, 1]) [0, 0, 0] = Inr (Some [0, 1, 1], [0, 4, 2])"
    by (simp add: labelLoop.simps float_to_int_def word_sless_alt Let_def)
  from main fails only ex show ?thesis by blast
qed

section \<open>Each slot is written once\<close>

lemma setSequence_frame:
  "setSequence data istr ismpl s = Inr data' \<Longrightarrow> i \<noteq> istr \<or> j \<noteq> ismpl \<Longrightarrow>
   data' ! i ! j = data ! i ! j"
  by (cases "i = istr") (auto simp: setSequence_def split: if_splits)

lemma denseStream_frame:
  "denseStream sd ismpl istr example data = Inr (istr', example', data') \<Longrightarrow>
   istr' = istr + 1 \<and> (i \<noteq> istr \<or> j \<noteq> ismpl \<longrightarrow> data' ! i ! j = data ! i ! j)"
  by (auto simp: denseStream_def Let_def dest: setSequence_frame
        split: if_splits sum.splits)

lemma sparseStream_frame:
  assumes "sparseStream this sd ismpl istr example data = Inr (istr', example', data')"
  shows "istr < istr' \<and> (j \<noteq> ismpl \<or> i < istr \<or> istr' \<le> i \<longrightarrow> data' ! i ! j = data ! i ! j)"
proof -
  obtain dims0 dims1 dims2 where lay: "m_streamLayout (m_inputStreams this ! istr) = (dims0, dims1, dims2)"
    by (cases "m_streamLayout (m_inputStreams this ! istr)")
  from sparseStream_Inr [OF assms lay]
  obtain ignoreSeq data1 index ignoreBuffer indicesMemory data2 q where
    ign: "ignoreSequence this sd ismpl istr data = Inr (ignoreSeq, data1)" and
    set2: "(case (ignoreSeq, ignoreBuffer) of
              (Some s, Some b) \<Rightarrow>
                setSequence data1 (istr + 1) ismpl (DenseSequence (s\<lparr>m_ownedData := b\<rparr>))
            | _ \<Rightarrow> Inr data1) = Inr data2" and
    set3: "setSequence data2 istr ismpl q = Inr data'" and
    nxt: "istr' = (if ignoreStream sd \<noteq> None then istr + 2 else istr + 1)"
    by blast
  have "data' ! i ! j = data ! i ! j" if c: "j \<noteq> ismpl \<or> i < istr \<or> istr' \<le> i"
  proof -
    from c nxt have ne: "i \<noteq> istr \<or> j \<noteq> ismpl" by (auto split: if_splits)
    have 3: "data' ! i ! j = data2 ! i ! j" by (rule setSequence_frame [OF set3 ne])
    have 1: "data1 ! i ! j = data ! i ! j"
    proof (cases "ignoreStream sd")
      case None
      with ignoreSequence_Inr(1) [OF ign] show ?thesis by simp
    next
      case (Some g)
      with c nxt have "i \<noteq> istr + 1 \<or> j \<noteq> ismpl" by auto
      with ign Some show ?thesis
        by (auto simp: ignoreSequence_def Let_def dest: setSequence_frame
              split: if_splits sum.splits prod.splits)
    qed
    have 2: "data2 ! i ! j = data1 ! i ! j"
    proof (cases "ignoreStream sd")
      case None
      with ignoreSequence_Inr(1) [OF ign] set2 show ?thesis by simp
    next
      case (Some g)
      with c nxt have "i \<noteq> istr + 1 \<or> j \<noteq> ismpl" by auto
      with set2 show ?thesis
        by (auto dest: setSequence_frame split: option.splits)
    qed
    from 1 2 3 show ?thesis by simp
  qed
  with nxt show ?thesis by auto
qed

lemma streamStep_frame:
  assumes "streamStep this ismpl istr iStreamDesc example data =
             Inr (istr', iStreamDesc', example', data')"
  shows "istr < istr'"
    and "j \<noteq> ismpl \<or> i < istr \<or> istr' \<le> i \<Longrightarrow> data' ! i ! j = data ! i ! j"
proof -
  from assms consider
      (d) "denseStream (m_streamDescriptors this ! iStreamDesc) ismpl istr example data
             = Inr (istr', example', data')"
    | (s) "sparseStream this (m_streamDescriptors this ! iStreamDesc) ismpl istr example data
             = Inr (istr', example', data')"
    by (auto simp: streamStep_def Let_def split: if_splits sum.splits)
  then have "istr < istr' \<and>
      (j \<noteq> ismpl \<or> i < istr \<or> istr' \<le> i \<longrightarrow> data' ! i ! j = data ! i ! j)"
  proof cases
    case d
    from denseStream_frame [OF d, of i j] show ?thesis by auto
  next
    case s
    from sparseStream_frame [OF s, of j i] show ?thesis .
  qed
  then show "istr < istr'"
    and "j \<noteq> ismpl \<or> i < istr \<or> istr' \<le> i \<Longrightarrow> data' ! i ! j = data ! i ! j"
    by auto
qed

lemma streamLoop_frame:
  "streamLoop this ismpl istr iStreamDesc example data = Inr (example', data') \<Longrightarrow>
   j \<noteq> ismpl \<or> i < istr \<Longrightarrow> data' ! i ! j = data ! i ! j"
proof (induction this ismpl istr iStreamDesc example data rule: streamLoop.induct)
  case (1 this ismpl istr iStreamDesc example data)
  show ?case
  proof (cases "istr < length (m_inputStreams this)")
    case False
    with "1.prems" show ?thesis by (simp add: streamLoop.simps)
  next
    case True
    with "1.prems"(1) obtain a b c d where
      s: "streamStep this ismpl istr iStreamDesc example data = Inr (a, b, c, d)" and
      l: "streamLoop this ismpl a b c d = Inr (example', data')"
      by (subst (asm) streamLoop.simps) (auto split: sum.splits)
    from streamStep_frame(1) [OF s] "1.prems"(2) have "j \<noteq> ismpl \<or> i < a" by auto
    from "1.IH" [OF True s refl refl refl l this] have "data' ! i ! j = d ! i ! j" .
    moreover from streamStep_frame(2) [OF s, of j i] "1.prems"(2) have "d ! i ! j = data ! i ! j"
      by auto
    ultimately show ?thesis by simp
  qed
qed

text \<open>
  A round of the stream loop is the only one to write its slots: what it stores at
  \<^verbatim>\<open>m_data[istr][ismpl]\<close>, and at \<^verbatim>\<open>m_data[istr + 1][ismpl]\<close> for a mask, is what the
  loop over the streams ends with, and the later samples leave it in place.
\<close>

lemma streamLoop_round:
  assumes "istr < length (m_inputStreams this)"
    and "streamLoop this ismpl istr iStreamDesc example data = Inr (exampleF, dataF)"
  shows "\<exists>istr' iStreamDesc' example' data'.
           streamStep this ismpl istr iStreamDesc example data =
             Inr (istr', iStreamDesc', example', data') \<and>
           (\<forall>i<istr'. dataF ! i ! ismpl = data' ! i ! ismpl)"
proof -
  from assms obtain a b c d where
    s: "streamStep this ismpl istr iStreamDesc example data = Inr (a, b, c, d)" and
    l: "streamLoop this ismpl a b c d = Inr (exampleF, dataF)"
    by (subst (asm) streamLoop.simps) (auto split: sum.splits)
  from streamLoop_frame [OF l] have "\<forall>i<a. dataF ! i ! ismpl = d ! i ! ismpl" by blast
  with s show ?thesis by blast
qed

lemma sampleLoop_frame:
  "sampleLoop loader this n ismpl dsLoader example data = Inr (dsLoader', example', data') \<Longrightarrow>
   j < ismpl \<Longrightarrow> data' ! i ! j = data ! i ! j"
proof (induction n arbitrary: ismpl dsLoader example data)
  case 0
  then show ?case by simp
next
  case (Suc n)
  from Suc.prems(1) obtain e d l e' where
    s: "streamLoop this ismpl 0 0 example data = Inr (e, d)" and
    r: "sampleLoop loader this n (ismpl + 1) l e' d = Inr (dsLoader', example', data')"
    by (auto split: sum.splits prod.splits)
  from Suc.prems(2) have "j < ismpl + 1" by simp
  from Suc.IH [OF r this] have "data' ! i ! j = d ! i ! j" .
  moreover from streamLoop_frame [OF s, of j i] Suc.prems(2) have "d ! i ! j = data ! i ! j"
    by simp
  ultimately show ?case by simp
qed

section \<open>The rounds of the two loops\<close>

text \<open>
  The loop over the samples can be cut after any number of samples, and the loop over
  the streams at any of its rounds: what follows is the loop again, entered with the
  values reached.
\<close>

lemma sampleLoop_split:
  "sampleLoop loader this (k + m) ismpl dsLoader example data =
     (case sampleLoop loader this k ismpl dsLoader example data of
        Inl e \<Rightarrow> Inl e
      | Inr (dsLoader', example', data') \<Rightarrow>
          sampleLoop loader this m (ismpl + k) dsLoader' example' data')"
proof (induction k arbitrary: ismpl dsLoader example data)
  case 0
  show ?case by simp
next
  case (Suc k)
  show ?case
    by (simp add: Suc.IH split: sum.splits prod.splits)
qed

lemma sampleLoop_sample:
  assumes ok: "sampleLoop loader this n ismpl dsLoader example data = Inr (dsLoaderF, exampleF, dataF)"
    and k: "k < n"
  shows "\<exists>l ex d ex' d'.
           sampleLoop loader this k ismpl dsLoader example data = Inr (l, ex, d) \<and>
           streamLoop this (ismpl + k) 0 0 ex d = Inr (ex', d') \<and>
           sampleLoop loader this (Suc k) ismpl dsLoader example data =
             Inr (fst (GetExample loader l ex'), snd (GetExample loader l ex'), d') \<and>
           (\<forall>i. dataF ! i ! (ismpl + k) = d' ! i ! (ismpl + k))"
proof -
  from k obtain m where n: "n = k + Suc m" by (auto dest: less_imp_Suc_add)
  note sp = sampleLoop_split [of loader this k "Suc m" ismpl dsLoader example data]
  from ok have ok': "sampleLoop loader this (k + Suc m) ismpl dsLoader example data =
      Inr (dsLoaderF, exampleF, dataF)" by (simp only: n)
  obtain l ex d where
    p: "sampleLoop loader this k ismpl dsLoader example data = Inr (l, ex, d)"
  proof (cases "sampleLoop loader this k ismpl dsLoader example data")
    case (Inl e)
    with sp ok' show ?thesis by simp
  next
    case (Inr r)
    then show ?thesis using that by (cases r) auto
  qed
  from sp ok' p have
    r: "sampleLoop loader this (Suc m) (ismpl + k) l ex d = Inr (dsLoaderF, exampleF, dataF)"
    by simp
  obtain ex' d' where s: "streamLoop this (ismpl + k) 0 0 ex d = Inr (ex', d')"
  proof (cases "streamLoop this (ismpl + k) 0 0 ex d")
    case (Inl e)
    with r show ?thesis by simp
  next
    case (Inr q)
    then show ?thesis using that by (cases q) auto
  qed
  from r s have
    t: "sampleLoop loader this m (ismpl + k + 1) (fst (GetExample loader l ex'))
          (snd (GetExample loader l ex')) d' = Inr (dsLoaderF, exampleF, dataF)"
    by (simp add: case_prod_beta)
  have f: "\<forall>i. dataF ! i ! (ismpl + k) = d' ! i ! (ismpl + k)"
    using sampleLoop_frame [OF t, of "ismpl + k"] by simp
  have "sampleLoop loader this (k + Suc 0) ismpl dsLoader example data =
          Inr (fst (GetExample loader l ex'), snd (GetExample loader l ex'), d')"
    by (simp only: sampleLoop_split [of loader this k "Suc 0"] p)
       (simp add: s case_prod_beta)
  then have "sampleLoop loader this (Suc k) ismpl dsLoader example data =
          Inr (fst (GetExample loader l ex'), snd (GetExample loader l ex'), d')"
    by simp
  with p s f show ?thesis by blast
qed

lemma sampleLoop_fails:
  "sampleLoop loader this n ismpl dsLoader example data = Inl e \<Longrightarrow>
   \<exists>k<n. \<exists>l ex d. sampleLoop loader this k ismpl dsLoader example data = Inr (l, ex, d) \<and>
      streamLoop this (ismpl + k) 0 0 ex d = Inl e"
proof (induction n arbitrary: ismpl dsLoader example data)
  case 0
  then show ?case by simp
next
  case (Suc n)
  show ?case
  proof (cases "streamLoop this ismpl 0 0 example data")
    case (Inl e')
    with Suc.prems have "e' = e" by simp
    with Inl have "sampleLoop loader this 0 ismpl dsLoader example data = Inr (dsLoader, example, data) \<and>
      streamLoop this (ismpl + 0) 0 0 example data = Inl e" by simp
    then show ?thesis by blast
  next
    case (Inr r)
    obtain ex' d' where r: "r = (ex', d')" by (cases r)
    let ?l = "fst (GetExample loader dsLoader ex')"
    let ?x = "snd (GetExample loader dsLoader ex')"
    from Suc.prems Inr r have "sampleLoop loader this n (ismpl + 1) ?l ?x d' = Inl e"
      by (simp add: case_prod_beta)
    from Suc.IH [OF this] obtain k l ex d where k: "k < n" and
      p: "sampleLoop loader this k (ismpl + 1) ?l ?x d' = Inr (l, ex, d)" and
      s: "streamLoop this (ismpl + 1 + k) 0 0 ex d = Inl e"
      by blast
    have "sampleLoop loader this (Suc k) ismpl dsLoader example data = Inr (l, ex, d)"
      using p by (simp add: Inr r case_prod_beta)
    moreover have "streamLoop this (ismpl + Suc k) 0 0 ex d = Inl e" using s by simp
    ultimately show ?thesis using k by (intro exI [of _ "Suc k"]) auto
  qed
qed

lemma streamRound_loop:
  "streamRound this ismpl j istr iStreamDesc example data = Inr (istr', iStreamDesc', example', data') \<Longrightarrow>
   streamLoop this ismpl istr iStreamDesc example data =
     streamLoop this ismpl istr' iStreamDesc' example' data'"
proof (induction j arbitrary: istr iStreamDesc example data)
  case 0
  then show ?case by simp
next
  case (Suc j)
  show ?case
  proof (cases "istr < length (m_inputStreams this)")
    case False
    with Suc.prems show ?thesis by simp
  next
    case True
    with Suc.prems obtain a b c d where
      s: "streamStep this ismpl istr iStreamDesc example data = Inr (a, b, c, d)" and
      r: "streamRound this ismpl j a b c d = Inr (istr', iStreamDesc', example', data')"
      by (auto split: sum.splits)
    from Suc.IH [OF r] have "streamLoop this ismpl a b c d =
      streamLoop this ismpl istr' iStreamDesc' example' data'" .
    moreover have "streamLoop this ismpl istr iStreamDesc example data = streamLoop this ismpl a b c d"
      by (subst streamLoop.simps) (simp add: True s)
    ultimately show ?thesis by simp
  qed
qed

lemma streamLoop_fails:
  "streamLoop this ismpl istr iStreamDesc example data = Inl e \<Longrightarrow>
   \<exists>j a b c d. streamRound this ismpl j istr iStreamDesc example data = Inr (a, b, c, d) \<and>
      a < length (m_inputStreams this) \<and> streamStep this ismpl a b c d = Inl e"
proof (induction this ismpl istr iStreamDesc example data rule: streamLoop.induct)
  case (1 this ismpl istr iStreamDesc example data)
  from "1.prems" have g: "istr < length (m_inputStreams this)"
    by (subst (asm) streamLoop.simps) (auto split: if_splits)
  show ?case
  proof (cases "streamStep this ismpl istr iStreamDesc example data")
    case (Inl e')
    with "1.prems" g have "e' = e" by (subst (asm) streamLoop.simps) simp
    with Inl g have "streamRound this ismpl 0 istr iStreamDesc example data = Inr (istr, iStreamDesc, example, data) \<and>
      istr < length (m_inputStreams this) \<and> streamStep this ismpl istr iStreamDesc example data = Inl e"
      by simp
    then show ?thesis by blast
  next
    case (Inr r)
    obtain a b c d where r: "r = (a, b, c, d)" by (cases r)
    from "1.prems" g Inr r have l: "streamLoop this ismpl a b c d = Inl e"
      by (subst (asm) streamLoop.simps) simp
    from "1.IH" [OF g Inr [unfolded r] refl refl refl l] obtain j a' b' c' d' where
      "streamRound this ismpl j a b c d = Inr (a', b', c', d')"
      "a' < length (m_inputStreams this)" "streamStep this ismpl a' b' c' d' = Inl e"
      by blast
    then have "streamRound this ismpl (Suc j) istr iStreamDesc example data = Inr (a', b', c', d') \<and>
      a' < length (m_inputStreams this) \<and> streamStep this ismpl a' b' c' d' = Inl e"
      using g Inr r by simp
    then show ?thesis by blast
  qed
qed

lemma streamLoop_covers:
  "streamLoop this ismpl istr iStreamDesc example data = Inr (exampleF, dataF) \<Longrightarrow>
   istr \<le> i \<Longrightarrow> i < length (m_inputStreams this) \<Longrightarrow>
   \<exists>j a b c d a' b' c' d'.
      streamRound this ismpl j istr iStreamDesc example data = Inr (a, b, c, d) \<and>
      a \<le> i \<and> streamStep this ismpl a b c d = Inr (a', b', c', d') \<and> i < a'"
proof (induction this ismpl istr iStreamDesc example data rule: streamLoop.induct)
  case (1 this ismpl istr iStreamDesc example data)
  from "1.prems" have g: "istr < length (m_inputStreams this)" by simp
  with "1.prems"(1) obtain a b c d where
    s: "streamStep this ismpl istr iStreamDesc example data = Inr (a, b, c, d)" and
    l: "streamLoop this ismpl a b c d = Inr (exampleF, dataF)"
    by (subst (asm) streamLoop.simps) (auto split: sum.splits)
  show ?case
  proof (cases "i < a")
    case True
    with s "1.prems"(2) have "streamRound this ismpl 0 istr iStreamDesc example data = Inr (istr, iStreamDesc, example, data) \<and>
      istr \<le> i \<and> streamStep this ismpl istr iStreamDesc example data = Inr (a, b, c, d) \<and> i < a"
      by simp
    then show ?thesis by blast
  next
    case False
    then have "a \<le> i" by simp
    from "1.IH" [OF g s refl refl refl l this "1.prems"(3)] obtain j a0 b0 c0 d0 a' b' c' d' where
      "streamRound this ismpl j a b c d = Inr (a0, b0, c0, d0)" "a0 \<le> i"
      "streamStep this ismpl a0 b0 c0 d0 = Inr (a', b', c', d')" "i < a'"
      by blast
    then have "streamRound this ismpl (Suc j) istr iStreamDesc example data = Inr (a0, b0, c0, d0) \<and>
      a0 \<le> i \<and> streamStep this ismpl a0 b0 c0 d0 = Inr (a', b', c', d') \<and> i < a'"
      using g s by simp
    then show ?thesis by blast
  qed
qed

section \<open>The rounds of a call of GetNextSequences\<close>

text \<open>
  What a round of a call that returns stores in its slots of \<^verbatim>\<open>m_data\<close> is what the
  call returns there; a round that fails makes the call fail, with the same error; a
  call fails in the computation of the sample count or in a round; and every slot of
  every sample belongs to a round.
\<close>

lemma GetNextSequences_unfold:
  assumes "GetNextSequences loader this totalSampleCount = Inr (sequences, this')"
  shows "\<exists>sampleCount dsLoader' example'.
           minibatchSampleCount this totalSampleCount = Inr (sampleCount, m_endOfEpoch sequences) \<and>
           sampleLoop loader this (unat sampleCount) 0 (m_dsLoader this) (m_example this)
             (replicate (length (m_inputStreams this)) (replicate (unat sampleCount) None))
             = Inr (dsLoader', example', m_data sequences) \<and>
           this' = this\<lparr>m_dsLoader := dsLoader', m_example := example',
                        m_currEpochSampleCount :=
                          m_currEpochSampleCount this + scast (ucast sampleCount :: cint)\<rparr>"
  using assms
  by (auto simp: GetNextSequences_def Let_def split: sum.splits prod.splits)

lemma enteredRound_Some:
  assumes "enteredRound loader this totalSampleCount ismpl j = Some (istr, iStreamDesc, example, data)"
  shows "\<exists>sampleCount endOfEpoch dsLoader exampleS dataS.
           minibatchSampleCount this totalSampleCount = Inr (sampleCount, endOfEpoch) \<and>
           ismpl < unat sampleCount \<and>
           sampleLoop loader this ismpl 0 (m_dsLoader this) (m_example this)
             (replicate (length (m_inputStreams this)) (replicate (unat sampleCount) None))
             = Inr (dsLoader, exampleS, dataS) \<and>
           streamRound this ismpl j 0 0 exampleS dataS = Inr (istr, iStreamDesc, example, data) \<and>
           istr < length (m_inputStreams this)"
  using assms
  by (auto simp: enteredRound_def split: sum.splits prod.splits if_splits)

lemma GetNextSequences_round:
  assumes ok: "GetNextSequences loader this totalSampleCount = Inr (sequences, this')"
    and r: "enteredRound loader this totalSampleCount ismpl j = Some (istr, iStreamDesc, example, data)"
  shows "\<exists>istr' iStreamDesc' example' data'.
           streamStep this ismpl istr iStreamDesc example data =
             Inr (istr', iStreamDesc', example', data') \<and>
           (\<forall>i<istr'. m_data sequences ! i ! ismpl = data' ! i ! ismpl)"
proof -
  from GetNextSequences_unfold [OF ok] obtain n l x where
    n: "minibatchSampleCount this totalSampleCount = Inr (n, m_endOfEpoch sequences)" and
    s: "sampleLoop loader this (unat n) 0 (m_dsLoader this) (m_example this)
          (replicate (length (m_inputStreams this)) (replicate (unat n) None))
          = Inr (l, x, m_data sequences)"
    by blast
  from enteredRound_Some [OF r] n obtain lS exS dS where
    k: "ismpl < unat n" and
    p: "sampleLoop loader this ismpl 0 (m_dsLoader this) (m_example this)
          (replicate (length (m_inputStreams this)) (replicate (unat n) None))
          = Inr (lS, exS, dS)" and
    q: "streamRound this ismpl j 0 0 exS dS = Inr (istr, iStreamDesc, example, data)" and
    g: "istr < length (m_inputStreams this)"
    by auto
  from sampleLoop_sample [OF s k] p obtain ex' d' where
    t: "streamLoop this ismpl 0 0 exS dS = Inr (ex', d')" and
    f: "\<forall>i. m_data sequences ! i ! ismpl = d' ! i ! ismpl"
    by auto
  from streamRound_loop [OF q] t have
    "streamLoop this ismpl istr iStreamDesc example data = Inr (ex', d')" by simp
  from streamLoop_round [OF g this] f show ?thesis by auto
qed

lemma GetNextSequences_round_fails:
  assumes r: "enteredRound loader this totalSampleCount ismpl j = Some (istr, iStreamDesc, example, data)"
    and e: "streamStep this ismpl istr iStreamDesc example data = Inl e"
  shows "GetNextSequences loader this totalSampleCount = Inl e"
proof -
  from enteredRound_Some [OF r] obtain n eoe lS exS dS where
    n: "minibatchSampleCount this totalSampleCount = Inr (n, eoe)" and
    k: "ismpl < unat n" and
    p: "sampleLoop loader this ismpl 0 (m_dsLoader this) (m_example this)
          (replicate (length (m_inputStreams this)) (replicate (unat n) None))
          = Inr (lS, exS, dS)" and
    q: "streamRound this ismpl j 0 0 exS dS = Inr (istr, iStreamDesc, example, data)" and
    g: "istr < length (m_inputStreams this)"
    by blast
  have "streamLoop this ismpl istr iStreamDesc example data = Inl e"
    by (subst streamLoop.simps) (simp add: g e)
  with streamRound_loop [OF q] have t: "streamLoop this ismpl 0 0 exS dS = Inl e" by simp
  from k obtain m where m: "unat n = ismpl + Suc m" by (auto dest: less_imp_Suc_add)
  have "sampleLoop loader this (ismpl + Suc m) 0 (m_dsLoader this) (m_example this)
          (replicate (length (m_inputStreams this)) (replicate (unat n) None)) = Inl e"
    by (simp only: sampleLoop_split [of loader this ismpl "Suc m"] p) (simp add: t)
  then have "sampleLoop loader this (unat n) 0 (m_dsLoader this) (m_example this)
          (replicate (length (m_inputStreams this)) (replicate (unat n) None)) = Inl e"
    by (simp only: m)
  then show ?thesis by (simp add: GetNextSequences_def n Let_def)
qed

lemma GetNextSequences_fails:
  assumes "GetNextSequences loader this totalSampleCount = Inl e"
  shows "minibatchSampleCount this totalSampleCount = Inl e \<or>
         (\<exists>ismpl j istr iStreamDesc example data.
            enteredRound loader this totalSampleCount ismpl j = Some (istr, iStreamDesc, example, data) \<and>
            streamStep this ismpl istr iStreamDesc example data = Inl e)"
proof (cases "minibatchSampleCount this totalSampleCount")
  case (Inl e')
  with assms show ?thesis by (simp add: GetNextSequences_def)
next
  case (Inr r)
  obtain n eoe where r: "r = (n, eoe)" by (cases r)
  let ?D = "replicate (length (m_inputStreams this)) (replicate (unat n) None)"
  from assms Inr r have "sampleLoop loader this (unat n) 0 (m_dsLoader this) (m_example this) ?D = Inl e"
    by (auto simp: GetNextSequences_def Let_def split: sum.splits prod.splits)
  from sampleLoop_fails [OF this] obtain k l ex d where
    k: "k < unat n" and
    p: "sampleLoop loader this k 0 (m_dsLoader this) (m_example this) ?D = Inr (l, ex, d)" and
    s: "streamLoop this k 0 0 ex d = Inl e"
    by auto
  from streamLoop_fails [OF s] obtain j a b c d' where
    q: "streamRound this k j 0 0 ex d = Inr (a, b, c, d')" and
    g: "a < length (m_inputStreams this)" and
    f: "streamStep this k a b c d' = Inl e"
    by blast
  have "enteredRound loader this totalSampleCount k j = Some (a, b, c, d')"
    by (simp add: enteredRound_def Inr r k p q g)
  with f show ?thesis by blast
qed

lemma GetNextSequences_covers:
  assumes ok: "GetNextSequences loader this totalSampleCount = Inr (sequences, this')"
    and i: "i < length (m_inputStreams this)"
    and k: "ismpl < length (m_data sequences ! i)"
  shows "\<exists>j a b c d a' b' c' d'.
           enteredRound loader this totalSampleCount ismpl j = Some (a, b, c, d) \<and>
           a \<le> i \<and> streamStep this ismpl a b c d = Inr (a', b', c', d') \<and> i < a'"
proof -
  from GetNextSequences_unfold [OF ok] obtain n l x where
    n: "minibatchSampleCount this totalSampleCount = Inr (n, m_endOfEpoch sequences)" and
    s: "sampleLoop loader this (unat n) 0 (m_dsLoader this) (m_example this)
          (replicate (length (m_inputStreams this)) (replicate (unat n) None))
          = Inr (l, x, m_data sequences)"
    by blast
  from sampleLoop_shape [OF s] have
    "map length (m_data sequences) = replicate (length (m_inputStreams this)) (unat n)"
    by simp
  then have "length (m_data sequences ! i) = unat n"
    using i by (metis length_map length_replicate nth_map nth_replicate)
  with k have k': "ismpl < unat n" by simp
  from sampleLoop_sample [OF s k'] obtain lS exS dS ex' d' where
    p: "sampleLoop loader this ismpl 0 (m_dsLoader this) (m_example this)
          (replicate (length (m_inputStreams this)) (replicate (unat n) None))
          = Inr (lS, exS, dS)" and
    t: "streamLoop this ismpl 0 0 exS dS = Inr (ex', d')"
    by auto
  from streamLoop_covers [OF t _ i] obtain j a b c d a' b' c' d'' where
    q: "streamRound this ismpl j 0 0 exS dS = Inr (a, b, c, d)" and
    r: "a \<le> i" "streamStep this ismpl a b c d = Inr (a', b', c', d'')" "i < a'"
    by auto
  from r(1) i have "a < length (m_inputStreams this)" by simp
  then have "enteredRound loader this totalSampleCount ismpl j = Some (a, b, c, d)"
    by (simp add: enteredRound_def n k' p q)
  with r show ?thesis by blast
qed

lemma streamStep_next:
  assumes "streamStep this ismpl istr iStreamDesc example data =
             Inr (istr', iStreamDesc', example', data')"
  shows "data' ! istr ! ismpl \<noteq> None \<and>
         (istr' = istr + 1 \<or>
          istr' = istr + 2 \<and> m_storageType (m_inputStreams this ! istr) \<noteq> dense \<and>
          ignoreStream (m_streamDescriptors this ! iStreamDesc) \<noteq> None \<and>
          data' ! (istr + 1) ! ismpl \<noteq> None)"
proof (cases "m_storageType (m_inputStreams this ! istr) = dense")
  case True
  from streamStep_dense [OF True assms] show ?thesis by auto
next
  case False
  obtain dims0 dims1 dims2 where
    lay: "m_streamLayout (m_inputStreams this ! istr) = (dims0, dims1, dims2)"
    by (cases "m_streamLayout (m_inputStreams this ! istr)")
  obtain i0 i1 i2 where
    ilay: "m_streamLayout (m_inputStreams this ! (istr + 1)) = (i0, i1, i2)"
    by (cases "m_streamLayout (m_inputStreams this ! (istr + 1))")
  from streamStep_sparse [OF False lay, of ismpl iStreamDesc example data] assms
  have 1: "data' ! istr ! ismpl \<noteq> None" by auto
  from sparseStream_Inr [OF streamStep_sparse_Inr [OF False assms] lay]
  have nxt: "istr' = (if ignoreStream (m_streamDescriptors this ! iStreamDesc) \<noteq> None
                      then istr + 2 else istr + 1)"
    by blast
  show ?thesis
  proof (cases "ignoreStream (m_streamDescriptors this ! iStreamDesc)")
    case None
    with 1 nxt show ?thesis by simp
  next
    case (Some ig)
    from streamStep_sparse_ignore [OF False lay Some ilay, of ismpl example data] assms
    have "data' ! (istr + 1) ! ismpl \<noteq> None" by auto
    with 1 nxt Some False show ?thesis by simp
  qed
qed

lemma GetNextSequences_filled:
  assumes ok: "GetNextSequences loader this totalSampleCount = Inr (sequences, this')"
    and i: "i < length (m_inputStreams this)"
    and k: "ismpl < length (m_data sequences ! i)"
  shows "m_data sequences ! i ! ismpl \<noteq> None"
proof -
  from GetNextSequences_covers [OF ok i k] obtain j a b c d a' b' c' d' where
    r: "enteredRound loader this totalSampleCount ismpl j = Some (a, b, c, d)" and
    a: "a \<le> i" "i < a'" and
    s: "streamStep this ismpl a b c d = Inr (a', b', c', d')"
    by blast
  from GetNextSequences_round [OF ok r] s a
  have e: "m_data sequences ! i ! ismpl = d' ! i ! ismpl" by auto
  have "i = a \<or> a' = a + 2 \<and> i = a + 1 \<and> d' ! (a + 1) ! ismpl \<noteq> None"
    using streamStep_next [OF s] a by auto
  with streamStep_next [OF s] have "d' ! i ! ismpl \<noteq> None" by auto
  with e show ?thesis by simp
qed

lemma GetNextSequences_slot:
  assumes ok: "GetNextSequences loader this totalSampleCount = Inr (sequences, this')"
    and i: "istr < length (m_inputStreams this)"
    and k: "ismpl < length (m_data sequences ! istr)"
  shows "(\<exists>j iStreamDesc example data.
            enteredRound loader this totalSampleCount ismpl j =
              Some (istr, iStreamDesc, example, data)) \<or>
         (\<exists>j iStreamDesc example data.
            enteredRound loader this totalSampleCount ismpl j =
              Some (istr - 1, iStreamDesc, example, data) \<and>
            0 < istr \<and>
            m_storageType (m_inputStreams this ! (istr - 1)) \<noteq> dense \<and>
            ignoreStream (m_streamDescriptors this ! iStreamDesc) \<noteq> None)"
proof -
  from GetNextSequences_covers [OF ok i k] obtain j a b c d a' b' c' d' where
    r: "enteredRound loader this totalSampleCount ismpl j = Some (a, b, c, d)" and
    a: "a \<le> istr" "istr < a'" and
    s: "streamStep this ismpl a b c d = Inr (a', b', c', d')"
    by blast
  note n = streamStep_next [OF s]
  from n a have "a' = a + 1 \<or> a' = a + 2" by blast
  with a have c: "a = istr \<or> a' = a + 2 \<and> istr = a + 1" by arith
  show ?thesis
  proof (cases "a = istr")
    case True
    with r show ?thesis by blast
  next
    case False
    with c have m: "a' = a + 2" "istr = a + 1" by simp_all
    with n have "m_storageType (m_inputStreams this ! a) \<noteq> dense"
        "ignoreStream (m_streamDescriptors this ! b) \<noteq> None"
      by simp_all
    with r m have "enteredRound loader this totalSampleCount ismpl j = Some (istr - 1, b, c, d) \<and>
        0 < istr \<and> m_storageType (m_inputStreams this ! (istr - 1)) \<noteq> dense \<and>
        ignoreStream (m_streamDescriptors this ! b) \<noteq> None"
      by simp
    then show ?thesis by blast
  qed
qed





section \<open>GetNextSequences on the concrete readers\<close>

lemma replicate_numeral: "replicate (numeral k) x = x # replicate (pred_numeral k) x"
  by (simp add: numeral_eq_Suc)

lemma sampleLoop_numeral:
  "sampleLoop loader this (numeral k) ismpl dsLoader example data =
     sampleLoop loader this (Suc (pred_numeral k)) ismpl dsLoader example data"
  by (simp add: numeral_eq_Suc)

lemma streamRound_numeral:
  "streamRound this ismpl (numeral k) istr iStreamDesc example data =
     streamRound this ismpl (Suc (pred_numeral k)) istr iStreamDesc example data"
  by (simp add: numeral_eq_Suc)

lemmas reader_eval =
  GetNextSequences_def minibatchSampleCount_def streamLoop.simps
  streamStep_def segmentationReader_def segmentationExample_def denseStream_def Let_def
  GetBlobShape_def SwapBlobData_def BlobIndexFromName_def setSequence_def sparseStream_def
  ignoreSequence_def float_to_int_def listLoader_def labelLoop.simps word_sless_alt
  replicate_numeral sampleLoop_numeral streamRound_numeral enteredRound_def

lemma GetNextSequences_twoSamples:
  "GetNextSequences listLoader twoSamples 2 =
     Inr (\<lparr>m_data =
             [[Some (DenseSequence \<lparr>m_id = 0, m_numberOfSamples = 1, m_sampleLayout = (3, 2, 1),
                                     m_ownedData = [1, 2, 3, 4, 5, 6]\<rparr>),
               Some (DenseSequence \<lparr>m_id = 1, m_numberOfSamples = 1, m_sampleLayout = (3, 2, 1),
                                     m_ownedData = [7, 8, 9, 10, 11, 12]\<rparr>)],
              [Some (SparseSequence \<lparr>m_id = 0, m_numberOfSamples = 1, m_nnzCounts = [3],
                                      m_totalNnzCount = 3, m_indicesMemory = [6, 1, 5],
                                      m_valuesMemory = [1, 1, 1]\<rparr>),
               Some (SparseSequence \<lparr>m_id = 1, m_numberOfSamples = 1, m_nnzCounts = [3],
                                      m_totalNnzCount = 3, m_indicesMemory = [3, 4, 2],
                                      m_valuesMemory = [1, 1, 1]\<rparr>)]],
           m_endOfEpoch = True\<rparr>,
          twoSamples
            \<lparr>m_dsLoader := [],
             m_example := (segmentationExample [] [] 3),
             m_currEpochSampleCount := 2\<rparr>)"
  by (simp add: twoSamples_def reader_eval)

lemma enteredRound_twoSamples:
  "enteredRound listLoader twoSamples 2 1 0 =
     Some (0, 0, segmentationExample [7, 8, 9, 10, 11, 12] [1, 1, 0] 3,
       [[Some (DenseSequence \<lparr>m_id = 0, m_numberOfSamples = 1, m_sampleLayout = (3, 2, 1),
                                     m_ownedData = [1, 2, 3, 4, 5, 6]\<rparr>), None],
        [Some (SparseSequence \<lparr>m_id = 0, m_numberOfSamples = 1, m_nnzCounts = [3],
                                      m_totalNnzCount = 3, m_indicesMemory = [6, 1, 5],
                                      m_valuesMemory = [1, 1, 1]\<rparr>), None]])"
  by (simp add: twoSamples_def reader_eval)

lemma enteredRound_twoSamples_sparse:
  "enteredRound listLoader twoSamples 2 1 1 =
     Some (1, 1, segmentationExample [] [1, 1, 0] 3,
       [[Some (DenseSequence \<lparr>m_id = 0, m_numberOfSamples = 1, m_sampleLayout = (3, 2, 1),
                                     m_ownedData = [1, 2, 3, 4, 5, 6]\<rparr>),
         Some (DenseSequence \<lparr>m_id = 1, m_numberOfSamples = 1, m_sampleLayout = (3, 2, 1),
                                     m_ownedData = [7, 8, 9, 10, 11, 12]\<rparr>)],
        [Some (SparseSequence \<lparr>m_id = 0, m_numberOfSamples = 1, m_nnzCounts = [3],
                                      m_totalNnzCount = 3, m_indicesMemory = [6, 1, 5],
                                      m_valuesMemory = [1, 1, 1]\<rparr>), None]])"
  by (simp add: twoSamples_def reader_eval)




lemma GetNextSequences_largeLabel:
  "GetNextSequences listLoader largeLabel 1 =
     Inr (\<lparr>m_data =
             [[Some (DenseSequence \<lparr>m_id = 0, m_numberOfSamples = 1, m_sampleLayout = (3, 2, 1),
                                     m_ownedData = [1, 2, 3, 4, 5, 6]\<rparr>)],
              [Some (SparseSequence \<lparr>m_id = 0, m_numberOfSamples = 1, m_nnzCounts = [4],
                                      m_totalNnzCount = 4, m_indicesMemory = [0, 1, 6, 11],
                                      m_valuesMemory = [1, 1, 1, 1]\<rparr>)]],
           m_endOfEpoch = True\<rparr>,
          largeLabel
            \<lparr>m_example := segmentationExample [] [] 4, m_currEpochSampleCount := 1\<rparr>)"
  by (simp add: largeLabel_def reader_eval)

lemma GetNextSequences_strayLabel:
  "GetNextSequences listLoader strayLabel 1 = Inl (RuntimeError InvalidChannel)"
  by (simp add: strayLabel_def reader_eval)

section \<open>Dense streams\<close>

text \<open>
  C7. Let a call of \<^verbatim>\<open>GetNextSequences\<close> return. For every round of its loop over the
  streams that is entered at a dense stream, for sample \<open>ismpl\<close> and with \<^verbatim>\<open>istr\<close>
  and \<^verbatim>\<open>iStreamDesc\<close>: the descriptor has no ignore sub-stream, and the sequence that
  the call returns at \<^verbatim>\<open>m_data[istr][ismpl]\<close> is a dense sequence whose buffer is, element
  for element, the buffer the adapter held for the descriptor's blob when the round was
  entered (the round leaves the adapter with the empty vector of the new sequence in its
  place); its \<^verbatim>\<open>m_numberOfSamples\<close> is 1 and its sample layout is the adapter's shape of
  that blob (\<open>channels x height x width\<close>) with the order of the dimensions reversed
  (\<open>width x height x channels\<close>). And every stream of every sample
  has its round: its own, or, for the ignore stream of a sparse stream, the round of the
  stream before it.
\<close>

theorem GetNextSequences_dense:
  assumes ok: "GetNextSequences loader this totalSampleCount = Inr (sequences, this')"
  shows "(\<forall>ismpl j istr iStreamDesc example data.
            enteredRound loader this totalSampleCount ismpl j =
              Some (istr, iStreamDesc, example, data) \<longrightarrow>
            m_storageType (m_inputStreams this ! istr) = dense \<longrightarrow>
            (\<exists>index sequence example' data'.
               ignoreStream (m_streamDescriptors this ! iStreamDesc) = None \<and>
               BlobIndexFromName example (datasetName (m_streamDescriptors this ! iStreamDesc))
                 = Inr index \<and>
               index < length (m_blobs example) \<and>
               m_data sequences ! istr ! ismpl = Some (DenseSequence sequence) \<and>
               m_ownedData sequence = m_blobs example ! index \<and>
               m_numberOfSamples sequence = 1 \<and>
               (case m_blob_shapes example ! index of
                  (channels, height, width) \<Rightarrow>
                    m_sampleLayout sequence = (scast width, scast height, scast channels)) \<and>
               streamStep this ismpl istr iStreamDesc example data =
                 Inr (istr + 1, iStreamDesc + 1, example', data') \<and>
               m_blobs example' = (m_blobs example)[index := []])) \<and>
         (\<forall>istr ismpl.
            istr < length (m_inputStreams this) \<longrightarrow>
            ismpl < length (m_data sequences ! istr) \<longrightarrow>
            (\<exists>j iStreamDesc example data.
               enteredRound loader this totalSampleCount ismpl j =
                 Some (istr, iStreamDesc, example, data)) \<or>
            (\<exists>j iStreamDesc example data.
               enteredRound loader this totalSampleCount ismpl j =
                 Some (istr - 1, iStreamDesc, example, data) \<and>
               0 < istr \<and>
               m_storageType (m_inputStreams this ! (istr - 1)) \<noteq> dense \<and>
               ignoreStream (m_streamDescriptors this ! iStreamDesc) \<noteq> None))"
proof -
  have 1: "\<exists>index sequence example' data'.
               ignoreStream (m_streamDescriptors this ! iStreamDesc) = None \<and>
               BlobIndexFromName example (datasetName (m_streamDescriptors this ! iStreamDesc))
                 = Inr index \<and>
               index < length (m_blobs example) \<and>
               m_data sequences ! istr ! ismpl = Some (DenseSequence sequence) \<and>
               m_ownedData sequence = m_blobs example ! index \<and>
               m_numberOfSamples sequence = 1 \<and>
               (case m_blob_shapes example ! index of
                  (channels, height, width) \<Rightarrow>
                    m_sampleLayout sequence = (scast width, scast height, scast channels)) \<and>
               streamStep this ismpl istr iStreamDesc example data =
                 Inr (istr + 1, iStreamDesc + 1, example', data') \<and>
               m_blobs example' = (m_blobs example)[index := []]"
    if r: "enteredRound loader this totalSampleCount ismpl j =
              Some (istr, iStreamDesc, example, data)"
      and d: "m_storageType (m_inputStreams this ! istr) = dense"
    for ismpl j istr iStreamDesc example data
  proof -
    from GetNextSequences_round [OF ok r] obtain istr' iStreamDesc' example' data' where
      s: "streamStep this ismpl istr iStreamDesc example data =
            Inr (istr', iStreamDesc', example', data')" and
      e: "\<forall>i<istr'. m_data sequences ! i ! ismpl = data' ! i ! ismpl"
      by blast
    from streamStep_dense [OF d s] obtain index sequence where
      f: "ignoreStream (m_streamDescriptors this ! iStreamDesc) = None"
         "BlobIndexFromName example (datasetName (m_streamDescriptors this ! iStreamDesc))
            = Inr index"
         "index < length (m_blobs example)"
         "data' ! istr ! ismpl = Some (DenseSequence sequence)"
         "m_ownedData sequence = m_blobs example ! index"
         "m_blobs example' = (m_blobs example)[index := []]"
         "m_numberOfSamples sequence = 1"
         "m_sampleLayout sequence = TensorShape_of (reverse3 (m_blob_shapes example ! index))"
         "istr' = istr + 1"
      by blast
    from s have "iStreamDesc' = iStreamDesc + 1"
      by (auto simp: streamStep_def Let_def split: if_splits sum.splits)
    with s f(9) have s': "streamStep this ismpl istr iStreamDesc example data =
            Inr (istr + 1, iStreamDesc + 1, example', data')" by simp
    from e f(9) f(4) have "m_data sequences ! istr ! ismpl = Some (DenseSequence sequence)"
      by simp
    moreover from f(8) have "case m_blob_shapes example ! index of
        (channels, height, width) \<Rightarrow>
          m_sampleLayout sequence = (scast width, scast height, scast channels)"
      by (cases "m_blob_shapes example ! index") simp
    ultimately show ?thesis using f(1,2,3,5,6,7) s'
      by (intro exI [of _ index] exI [of _ sequence] exI [of _ example'] exI [of _ data'] conjI)
  qed
  have 2: "(\<exists>j iStreamDesc example data.
               enteredRound loader this totalSampleCount ismpl j =
                 Some (istr, iStreamDesc, example, data)) \<or>
            (\<exists>j iStreamDesc example data.
               enteredRound loader this totalSampleCount ismpl j =
                 Some (istr - 1, iStreamDesc, example, data) \<and>
               0 < istr \<and>
               m_storageType (m_inputStreams this ! (istr - 1)) \<noteq> dense \<and>
               ignoreStream (m_streamDescriptors this ! iStreamDesc) \<noteq> None)"
    if "istr < length (m_inputStreams this)" "ismpl < length (m_data sequences ! istr)"
    for istr ismpl
    using GetNextSequences_slot [OF ok that] .
  from 1 2 show ?thesis by blast
qed

theorem GetNextSequences_dense_witness:
  "\<exists>sequences this' example data sequence.
     GetNextSequences listLoader twoSamples 2 = Inr (sequences, this') \<and>
     enteredRound listLoader twoSamples 2 1 0 = Some (0, 0, example, data) \<and>
     m_storageType (m_inputStreams twoSamples ! 0) = dense \<and>
     m_blobs example ! 0 = [7, 8, 9, 10, 11, 12] \<and>
     m_blob_shapes example ! 0 = (1, 2, 3) \<and>
     m_data sequences ! 0 ! 1 = Some (DenseSequence sequence) \<and>
     m_ownedData sequence = [7, 8, 9, 10, 11, 12] \<and>
     m_numberOfSamples sequence = 1 \<and>
     m_sampleLayout sequence = (3, 2, 1)"
proof -
  from GetNextSequences_twoSamples obtain sequences this' where
    ok: "GetNextSequences listLoader twoSamples 2 = Inr (sequences, this')"
    by blast
  let ?example = "segmentationExample [7, 8, 9, 10, 11, 12] [1, 1, 0] 3"
  from enteredRound_twoSamples obtain data where
    r: "enteredRound listLoader twoSamples 2 1 0 = Some (0, 0, ?example, data)"
    by blast
  have d: "m_storageType (m_inputStreams twoSamples ! 0) = dense"
    by (simp add: twoSamples_def segmentationReader_def)
  have b: "m_blobs ?example ! 0 = [7, 8, 9, 10, 11, 12]" "m_blob_shapes ?example ! 0 = (1, 2, 3)"
    by (simp_all add: segmentationExample_def)
  from GetNextSequences_dense [OF ok, THEN conjunct1, rule_format, OF r d]
  obtain index sequence where
    i: "BlobIndexFromName ?example (datasetName (m_streamDescriptors twoSamples ! 0)) = Inr index" and
    s: "m_data sequences ! 0 ! 1 = Some (DenseSequence sequence)"
       "m_ownedData sequence = m_blobs ?example ! index"
       "m_numberOfSamples sequence = 1"
       "case m_blob_shapes ?example ! index of
          (channels, height, width) \<Rightarrow>
            m_sampleLayout sequence = (scast width, scast height, scast channels)"
    by (elim exE conjE) simp
  from i have "index = 0"
    by (simp add: twoSamples_def segmentationReader_def segmentationExample_def
          BlobIndexFromName_def)
  with s b have "m_data sequences ! 0 ! 1 = Some (DenseSequence sequence) \<and>
     m_ownedData sequence = [7, 8, 9, 10, 11, 12] \<and>
     m_numberOfSamples sequence = 1 \<and>
     m_sampleLayout sequence = (3, 2, 1)"
    by simp
  with ok r d b show ?thesis by blast
qed

section \<open>Sparse streams\<close>

text \<open>
  C5 (amended). Take a round of the loop over the streams that a call of
  \<^verbatim>\<open>GetNextSequences\<close> enters at a sparse stream of layout \<open>(dims0, dims1, dims2)\<close>. If
  the call returns, the label buffer the adapter held when the round was entered has
  \<open>dims0 * dims1\<close> elements (with any other number the call fails), and the sequence
  returned at \<^verbatim>\<open>m_data[istr][ismpl]\<close> is a sparse sequence with one index and one value
  per position: all values are 1, the nonzero count is the spatial size cast to
  \<^verbatim>\<open>IndexType\<close> (the spatial size itself when below \<open>2 ^ 32\<close>), and at every position
  whose label \<open>c\<close> is not matched by an ignore label, \<open>c\<close> is one of the classes and the
  index is \<open>c * spatialSize + position\<close> computed in \<^verbatim>\<open>size_t\<close> and cast to the 32 bits
  of \<^verbatim>\<open>IndexType\<close>: that number whenever it is below \<open>2 ^ 32\<close>. Every stream of every
  sample has its round. For the labels \<open>[2, 0, 1]\<close> with spatial size 3 and 3 classes
  the call returns the indices \<open>[6, 1, 5]\<close>, the values \<open>[1, 1, 1]\<close> and the count 3.
\<close>

theorem GetNextSequences_sparse:
  assumes r: "enteredRound loader this totalSampleCount ismpl j =
                Some (istr, iStreamDesc, example, data)"
    and sp: "m_storageType (m_inputStreams this ! istr) \<noteq> dense"
    and lay: "m_streamLayout (m_inputStreams this ! istr) = (dims0, dims1, dims2)"
  shows "(\<forall>sequences this'.
            GetNextSequences loader this totalSampleCount = Inr (sequences, this') \<longrightarrow>
            (\<exists>index sequence.
               BlobIndexFromName example (datasetName (m_streamDescriptors this ! iStreamDesc))
                 = Inr index \<and>
               index < length (m_blobs example) \<and>
               m_data sequences ! istr ! ismpl = Some (SparseSequence sequence) \<and>
               (let labels = m_blobs example ! index; spatialSize = dims0 * dims1
                in of_nat (length labels) = spatialSize \<and>
                   length (m_indicesMemory sequence) = length labels \<and>
                   m_valuesMemory sequence = replicate (length labels) 1 \<and>
                   m_nnzCounts sequence = [ucast spatialSize] \<and>
                   m_totalNnzCount sequence = ucast spatialSize \<and>
                   (unat spatialSize < 2 ^ 32 \<longrightarrow>
                      unat (m_totalNnzCount sequence) = unat spatialSize) \<and>
                   m_numberOfSamples sequence = 1 \<and>
                   (\<forall>p<length labels.
                      \<exists>c. float_to_int (labels ! p) = Some c \<and>
                          (Some c \<noteq> map_option ignoreLabel
                                       (ignoreStream (m_streamDescriptors this ! iStreamDesc)) \<longrightarrow>
                             m_indicesMemory sequence ! p = ucast (scast c * spatialSize + of_nat p) \<and>
                             0 \<le> sint c \<and> scast c \<le> dims2 - 1 \<and>
                             (nat (sint c) * unat spatialSize + p < 2 ^ 32 \<longrightarrow>
                                unat (m_indicesMemory sequence ! p) =
                                  nat (sint c) * unat spatialSize + p)))))) \<and>
         (\<forall>index.
            BlobIndexFromName example (datasetName (m_streamDescriptors this ! iStreamDesc))
              = Inr index \<longrightarrow>
            (of_nat (length (m_blobs example ! index)) :: size_t) \<noteq> dims0 * dims1 \<longrightarrow>
            isl (GetNextSequences loader this totalSampleCount)) \<and>
         (\<forall>sequences this' istr ismpl.
            GetNextSequences loader this totalSampleCount = Inr (sequences, this') \<longrightarrow>
            istr < length (m_inputStreams this) \<longrightarrow>
            ismpl < length (m_data sequences ! istr) \<longrightarrow>
            (\<exists>j iStreamDesc example data.
               enteredRound loader this totalSampleCount ismpl j =
                 Some (istr, iStreamDesc, example, data)) \<or>
            (\<exists>j iStreamDesc example data.
               enteredRound loader this totalSampleCount ismpl j =
                 Some (istr - 1, iStreamDesc, example, data) \<and>
               0 < istr \<and>
               m_storageType (m_inputStreams this ! (istr - 1)) \<noteq> dense \<and>
               ignoreStream (m_streamDescriptors this ! iStreamDesc) \<noteq> None)) \<and>
         (\<exists>sequences this' sequence.
            GetNextSequences listLoader twoSamples 2 = Inr (sequences, this') \<and>
            m_data sequences ! 1 ! 0 = Some (SparseSequence sequence) \<and>
            m_indicesMemory sequence = [6, 1, 5] \<and> m_valuesMemory sequence = [1, 1, 1] \<and>
            m_nnzCounts sequence = [3] \<and> m_totalNnzCount sequence = 3)"
proof -
  note step = streamStep_sparse [OF sp lay, of ismpl iStreamDesc example data]
  have 1: "\<exists>index sequence.
               BlobIndexFromName example (datasetName (m_streamDescriptors this ! iStreamDesc))
                 = Inr index \<and>
               index < length (m_blobs example) \<and>
               m_data sequences ! istr ! ismpl = Some (SparseSequence sequence) \<and>
               (let labels = m_blobs example ! index; spatialSize = dims0 * dims1
                in of_nat (length labels) = spatialSize \<and>
                   length (m_indicesMemory sequence) = length labels \<and>
                   m_valuesMemory sequence = replicate (length labels) 1 \<and>
                   m_nnzCounts sequence = [ucast spatialSize] \<and>
                   m_totalNnzCount sequence = ucast spatialSize \<and>
                   (unat spatialSize < 2 ^ 32 \<longrightarrow>
                      unat (m_totalNnzCount sequence) = unat spatialSize) \<and>
                   m_numberOfSamples sequence = 1 \<and>
                   (\<forall>p<length labels.
                      \<exists>c. float_to_int (labels ! p) = Some c \<and>
                          (Some c \<noteq> map_option ignoreLabel
                                       (ignoreStream (m_streamDescriptors this ! iStreamDesc)) \<longrightarrow>
                             m_indicesMemory sequence ! p = ucast (scast c * spatialSize + of_nat p) \<and>
                             0 \<le> sint c \<and> scast c \<le> dims2 - 1 \<and>
                             (nat (sint c) * unat spatialSize + p < 2 ^ 32 \<longrightarrow>
                                unat (m_indicesMemory sequence ! p) =
                                  nat (sint c) * unat spatialSize + p))))"
    if ok: "GetNextSequences loader this totalSampleCount = Inr (sequences, this')"
    for sequences this'
  proof -
    from GetNextSequences_round [OF ok r] obtain istr' iStreamDesc' example' data' where
      s: "streamStep this ismpl istr iStreamDesc example data =
            Inr (istr', iStreamDesc', example', data')" and
      e: "\<forall>i<istr'. m_data sequences ! i ! ismpl = data' ! i ! ismpl"
      by blast
    from streamStep_frame(1) [OF s] e
    have e': "data' ! istr ! ismpl = m_data sequences ! istr ! ismpl" by simp
    from step [THEN conjunct1, rule_format, OF s] obtain index sequence where
      f: "BlobIndexFromName example (datasetName (m_streamDescriptors this ! iStreamDesc))
                 = Inr index"
         "index < length (m_blobs example)"
         "data' ! istr ! ismpl = Some (SparseSequence sequence)" and
      g: "let labels = m_blobs example ! index; spatialSize = dims0 * dims1
                in of_nat (length labels) = spatialSize \<and>
                   length (m_indicesMemory sequence) = length labels \<and>
                   m_valuesMemory sequence = replicate (length labels) 1 \<and>
                   m_nnzCounts sequence = [ucast spatialSize] \<and>
                   m_totalNnzCount sequence = ucast spatialSize \<and>
                   m_numberOfSamples sequence = 1 \<and>
                   (\<forall>p<length labels.
                      \<exists>c. float_to_int (labels ! p) = Some c \<and>
                          (Some c \<noteq> map_option ignoreLabel
                                       (ignoreStream (m_streamDescriptors this ! iStreamDesc)) \<longrightarrow>
                             m_indicesMemory sequence ! p = ucast (scast c * spatialSize + of_nat p) \<and>
                             0 \<le> sint c \<and> scast c \<le> dims2 - 1 \<and>
                             (nat (sint c) * unat spatialSize + p < 2 ^ 32 \<longrightarrow>
                                unat (m_indicesMemory sequence ! p) =
                                  nat (sint c) * unat spatialSize + p)))"
      by blast
    from g have t: "m_totalNnzCount sequence = ucast (dims0 * dims1)" by (simp add: Let_def)
    have u: "unat (dims0 * dims1) < 2 ^ 32 \<longrightarrow>
               unat (m_totalNnzCount sequence) = unat (dims0 * dims1)"
      unfolding t using ucast_small [of "dims0 * dims1"] by simp
    from f(3) e' have "m_data sequences ! istr ! ismpl = Some (SparseSequence sequence)" by simp
    with f(1,2) g u show ?thesis
      unfolding Let_def by (intro exI [of _ index] exI [of _ sequence]) simp
  qed
  have 2: "isl (GetNextSequences loader this totalSampleCount)"
    if "BlobIndexFromName example (datasetName (m_streamDescriptors this ! iStreamDesc))
              = Inr index"
       "(of_nat (length (m_blobs example ! index)) :: size_t) \<noteq> dims0 * dims1"
    for index
  proof -
    from step that have "isl (streamStep this ismpl istr iStreamDesc example data)" by blast
    then obtain e where "streamStep this ismpl istr iStreamDesc example data = Inl e"
      by (cases "streamStep this ismpl istr iStreamDesc example data") auto
    from GetNextSequences_round_fails [OF r this] show ?thesis by simp
  qed
  have 3: "(\<exists>j iStreamDesc example data.
               enteredRound loader this totalSampleCount ismpl j =
                 Some (istr, iStreamDesc, example, data)) \<or>
            (\<exists>j iStreamDesc example data.
               enteredRound loader this totalSampleCount ismpl j =
                 Some (istr - 1, iStreamDesc, example, data) \<and>
               0 < istr \<and>
               m_storageType (m_inputStreams this ! (istr - 1)) \<noteq> dense \<and>
               ignoreStream (m_streamDescriptors this ! iStreamDesc) \<noteq> None)"
    if "GetNextSequences loader this totalSampleCount = Inr (sequences, this')"
      "istr < length (m_inputStreams this)" "ismpl < length (m_data sequences ! istr)"
    for sequences this' istr ismpl
    using GetNextSequences_slot [OF that] .
  have 4: "\<exists>sequences this' sequence.
            GetNextSequences listLoader twoSamples 2 = Inr (sequences, this') \<and>
            m_data sequences ! 1 ! 0 = Some (SparseSequence sequence) \<and>
            m_indicesMemory sequence = [6, 1, 5] \<and> m_valuesMemory sequence = [1, 1, 1] \<and>
            m_nnzCounts sequence = [3] \<and> m_totalNnzCount sequence = 3"
    by (simp add: GetNextSequences_twoSamples)
  from 1 2 3 4 show ?thesis by blast
qed

theorem GetNextSequences_sparse_witness:
  "\<exists>sequences this' example data sequence.
     GetNextSequences listLoader twoSamples 2 = Inr (sequences, this') \<and>
     enteredRound listLoader twoSamples 2 1 1 = Some (1, 1, example, data) \<and>
     m_storageType (m_inputStreams twoSamples ! 1) \<noteq> dense \<and>
     m_streamLayout (m_inputStreams twoSamples ! 1) = (3, 1, 3) \<and>
     m_blobs example ! 1 = [1, 1, 0] \<and>
     m_data sequences ! 1 ! 1 = Some (SparseSequence sequence) \<and>
     length (m_indicesMemory sequence) = 3 \<and>
     m_indicesMemory sequence ! 0 = 3 \<and>
     m_indicesMemory sequence ! 1 = 4 \<and>
     m_indicesMemory sequence ! 2 = 2 \<and>
     m_valuesMemory sequence = [1, 1, 1] \<and>
     m_nnzCounts sequence = [3]"
proof -
  from GetNextSequences_twoSamples obtain sequences this' where
    ok: "GetNextSequences listLoader twoSamples 2 = Inr (sequences, this')"
    by blast
  let ?example = "segmentationExample [] [1, 1, 0] 3"
  from enteredRound_twoSamples_sparse obtain data where
    r: "enteredRound listLoader twoSamples 2 1 1 = Some (1, 1, ?example, data)"
    by blast
  have sp: "m_storageType (m_inputStreams twoSamples ! 1) \<noteq> dense"
    and lay: "m_streamLayout (m_inputStreams twoSamples ! 1) = (3, 1, 3)"
    and ig: "ignoreStream (m_streamDescriptors twoSamples ! 1) = None"
    by (simp_all add: twoSamples_def segmentationReader_def)
  have b: "m_blobs ?example ! 1 = [1, 1, 0]"
    by (simp add: segmentationExample_def)
  from GetNextSequences_sparse [OF r sp lay, THEN conjunct1, rule_format, OF ok]
  obtain index sequence where
    i: "BlobIndexFromName ?example (datasetName (m_streamDescriptors twoSamples ! 1)) = Inr index" and
    s: "m_data sequences ! 1 ! 1 = Some (SparseSequence sequence)" and
    f: "let labels = m_blobs ?example ! index; spatialSize = (3 :: size_t) * 1
        in of_nat (length labels) = spatialSize \<and>
           length (m_indicesMemory sequence) = length labels \<and>
           m_valuesMemory sequence = replicate (length labels) 1 \<and>
           m_nnzCounts sequence = [ucast spatialSize] \<and>
           m_totalNnzCount sequence = ucast spatialSize \<and>
           (unat spatialSize < 2 ^ 32 \<longrightarrow>
              unat (m_totalNnzCount sequence) = unat spatialSize) \<and>
           m_numberOfSamples sequence = 1 \<and>
           (\<forall>p<length labels.
              \<exists>c. float_to_int (labels ! p) = Some c \<and>
                  (Some c \<noteq> map_option ignoreLabel
                               (ignoreStream (m_streamDescriptors twoSamples ! 1)) \<longrightarrow>
                     m_indicesMemory sequence ! p = ucast (scast c * spatialSize + of_nat p) \<and>
                     0 \<le> sint c \<and> scast c \<le> (3 :: size_t) - 1 \<and>
                     (nat (sint c) * unat spatialSize + p < 2 ^ 32 \<longrightarrow>
                        unat (m_indicesMemory sequence ! p) =
                          nat (sint c) * unat spatialSize + p)))"
    by blast
  from i have x: "index = 1"
    by (simp add: twoSamples_def segmentationReader_def segmentationExample_def
          BlobIndexFromName_def)
  from f have g: "length (m_indicesMemory sequence) = 3"
      "m_valuesMemory sequence = [1, 1, 1]" "m_nnzCounts sequence = [3]"
    unfolding Let_def x b ig by (simp_all add: replicate_numeral)
  from f have h: "\<exists>c. float_to_int ([1, 1, 0] ! p) = Some c \<and>
              m_indicesMemory sequence ! p = ucast (scast c * 3 + of_nat p :: size_t)"
    if "p < 3" for p
    unfolding Let_def x b ig using that by (auto simp: numeral_3_eq_3)
  from h [of 0] have p0: "m_indicesMemory sequence ! 0 = 3" by (auto simp: float_to_int_def)
  from h [of 1] have p1: "m_indicesMemory sequence ! 1 = 4" by (auto simp: float_to_int_def)
  from h [of 2] have p2: "m_indicesMemory sequence ! 2 = 2" by (auto simp: float_to_int_def)
  from ok r sp lay b s g p0 p1 p2 show ?thesis by blast
qed

text \<open>
  The index is the number \<open>label * spatialSize + position\<close> only while that number fits
  the 32 bits of \<^verbatim>\<open>IndexType\<close>: with four positions and \<open>2 ^ 31 - 1\<close> classes, the label
  \<open>2 ^ 30\<close> at position 0 is one of the classes, the number is \<open>2 ^ 32\<close>, and the index
  returned is 0.
\<close>

theorem GetNextSequences_sparse_counterexample:
  "(\<exists>sequences this' sequence.
      GetNextSequences listLoader largeLabel 1 = Inr (sequences, this') \<and>
      m_data sequences ! 1 ! 0 = Some (SparseSequence sequence) \<and>
      m_indicesMemory sequence = [0, 1, 6, 11]) \<and>
   m_storageType (m_inputStreams largeLabel ! 1) \<noteq> dense \<and>
   m_streamLayout (m_inputStreams largeLabel ! 1) = (4, 1, 2147483647) \<and>
   ignoreStream (m_streamDescriptors largeLabel ! 1) = None \<and>
   m_blobs (m_example largeLabel) ! 1 = [1073741824, 0, 1, 2] \<and>
   float_to_int 1073741824 = Some 1073741824 \<and>
   nat (sint (1073741824 :: cint)) * unat (4 * 1 :: size_t) + 0 = 4294967296"
proof -
  have "\<exists>sequences this' sequence.
      GetNextSequences listLoader largeLabel 1 = Inr (sequences, this') \<and>
      m_data sequences ! 1 ! 0 = Some (SparseSequence sequence) \<and>
      m_indicesMemory sequence = [0, 1, 6, 11]"
    by (simp add: GetNextSequences_largeLabel)
  moreover have "m_storageType (m_inputStreams largeLabel ! 1) \<noteq> dense \<and>
   m_streamLayout (m_inputStreams largeLabel ! 1) = (4, 1, 2147483647) \<and>
   ignoreStream (m_streamDescriptors largeLabel ! 1) = None \<and>
   m_blobs (m_example largeLabel) ! 1 = [1073741824, 0, 1, 2] \<and>
   float_to_int 1073741824 = Some 1073741824 \<and>
   nat (sint (1073741824 :: cint)) * unat (4 * 1 :: size_t) + 0 = 4294967296"
    by (simp add: largeLabel_def segmentationReader_def segmentationExample_def
          float_to_int_def)
  ultimately show ?thesis by blast
qed

section \<open>Sparse streams with an ignore stream\<close>




section \<open>GetNextSequences: the number of samples\<close>

lemma GetNextSequences_rows:
  assumes ok: "GetNextSequences loader this totalSampleCount = Inr (sequences, this')"
    and n: "minibatchSampleCount this totalSampleCount = Inr (n, e)"
  shows "length (m_data sequences) = length (m_inputStreams this)"
    and "\<forall>row \<in> set (m_data sequences). length row = unat n \<and> None \<notin> set row"
proof -
  from GetNextSequences_Inr [OF ok] n have
    m: "map length (m_data sequences) = replicate (length (m_inputStreams this)) (unat n)"
    by auto
  then show l: "length (m_data sequences) = length (m_inputStreams this)"
    by (metis length_map length_replicate)
  show "\<forall>row \<in> set (m_data sequences). length row = unat n \<and> None \<notin> set row"
  proof
    fix row assume "row \<in> set (m_data sequences)"
    then obtain i where i: "i < length (m_data sequences)" "row = m_data sequences ! i"
      by (auto simp: in_set_conv_nth)
    from i(1) have "length row \<in> set (map length (m_data sequences))"
      unfolding i(2) by simp
    then have len: "length row = unat n" unfolding m by simp
    have "row ! k \<noteq> None" if "k < length row" for k
      using GetNextSequences_filled [OF ok, of i k] i l that by simp
    then have "None \<notin> set row" by (auto simp: in_set_conv_nth)
    with len show "length row = unat n \<and> None \<notin> set row" ..
  qed
qed

text \<open>
  C3 (amended). With \<open>sampleCount = totalSampleCount / workerCount\<close> and
  \<open>remaining = epochSize - consumed\<close>, call fatal the condition that \<open>totalSampleCount\<close>
  differs from the minibatch size, or \<open>sampleCount\<close> is zero, or
  \<^verbatim>\<open>m_appendLastMinibatch\<close> is set and \<open>remaining \<le> 2 * sampleCount\<close> but
  \<open>remaining \<noteq> sampleCount + 1\<close>. The computation of the sample count (lines 475-506)
  fails exactly when it holds, with a raised fatal error when the number of workers is
  not zero, and \<^verbatim>\<open>GetNextSequences\<close> fails exactly when it holds or a round of its loop
  over the streams fails. Otherwise the number of samples is \<open>remaining\<close>, with the end
  of the epoch marked, when the flag is set and \<open>remaining \<le> 2 * sampleCount\<close> (which
  \<open>remaining = sampleCount + 1\<close> implies for a sample count below \<open>2 ^ 63\<close>), or when the
  flag is not set and \<open>remaining \<le> sampleCount\<close>; in every other case it is
  \<open>sampleCount\<close>, with the end of the epoch not marked. A call that returns has
  consumed that number \<open>n\<close> of samples and carries that mark: every stream holds \<open>n\<close>
  sequences, none of them null; after the streams of each of the \<open>n\<close> samples the loader
  was asked once for the next example, and the reader is left with the loader and the
  adapter of the last of these; and the counter of consumed samples has advanced by \<open>n\<close>
  (for \<open>n\<close> below \<open>2 ^ 31\<close>) within the same epoch size.
\<close>

theorem GetNextSequences_sample_count:
  "(let sampleCount = totalSampleCount div m_numberOfWorkers this;
        remaining = m_epochSize this - m_currEpochSampleCount this;
        append = m_appendLastMinibatch this;
        fatal = (totalSampleCount \<noteq> m_minibatchSize this \<or> sampleCount = 0 \<or>
                 (append \<and> remaining \<le> 2 * sampleCount \<and> remaining \<noteq> sampleCount + 1))
    in (isl (minibatchSampleCount this totalSampleCount) \<longleftrightarrow> fatal) \<and>
       (m_numberOfWorkers this \<noteq> 0 \<longrightarrow>
          (is_RuntimeError (minibatchSampleCount this totalSampleCount) \<longleftrightarrow> fatal)) \<and>
       (isl (GetNextSequences loader this totalSampleCount) \<longleftrightarrow>
          fatal \<or>
          (\<exists>ismpl j istr iStreamDesc example data.
             enteredRound loader this totalSampleCount ismpl j =
               Some (istr, iStreamDesc, example, data) \<and>
             isl (streamStep this ismpl istr iStreamDesc example data))) \<and>
       (\<not> fatal \<longrightarrow>
          minibatchSampleCount this totalSampleCount =
            Inr (if append \<and> remaining \<le> 2 * sampleCount then (remaining, True)
                 else if \<not> append \<and> remaining \<le> sampleCount then (remaining, True)
                 else (sampleCount, False))) \<and>
       (unat sampleCount < 2 ^ 63 \<and> sampleCount \<noteq> 0 \<and> remaining = sampleCount + 1 \<longrightarrow>
          remaining \<le> 2 * sampleCount) \<and>
       (\<forall>sequences this'.
          GetNextSequences loader this totalSampleCount = Inr (sequences, this') \<longrightarrow>
          (\<exists>n. minibatchSampleCount this totalSampleCount = Inr (n, m_endOfEpoch sequences) \<and>
               length (m_data sequences) = length (m_inputStreams this) \<and>
               (\<forall>row \<in> set (m_data sequences). length row = unat n \<and> None \<notin> set row) \<and>
               (\<forall>k<unat n. \<exists>dsLoader example data example' data'.
                  sampleLoop loader this k 0 (m_dsLoader this) (m_example this)
                    (replicate (length (m_inputStreams this)) (replicate (unat n) None))
                    = Inr (dsLoader, example, data) \<and>
                  streamLoop this k 0 0 example data = Inr (example', data') \<and>
                  sampleLoop loader this (Suc k) 0 (m_dsLoader this) (m_example this)
                    (replicate (length (m_inputStreams this)) (replicate (unat n) None))
                    = Inr (fst (GetExample loader dsLoader example'),
                           snd (GetExample loader dsLoader example'), data')) \<and>
               sampleLoop loader this (unat n) 0 (m_dsLoader this) (m_example this)
                 (replicate (length (m_inputStreams this)) (replicate (unat n) None))
                 = Inr (m_dsLoader this', m_example this', m_data sequences) \<and>
               (unat n < 2 ^ 31 \<longrightarrow>
                  m_currEpochSampleCount this' = m_currEpochSampleCount this + n) \<and>
               m_epochSize this' = m_epochSize this)))"
proof -
  let ?fatal = "totalSampleCount \<noteq> m_minibatchSize this \<or>
            totalSampleCount div m_numberOfWorkers this = 0 \<or>
            (m_appendLastMinibatch this \<and>
             m_epochSize this - m_currEpochSampleCount this
               \<le> 2 * (totalSampleCount div m_numberOfWorkers this) \<and>
             m_epochSize this - m_currEpochSampleCount this
               \<noteq> totalSampleCount div m_numberOfWorkers this + 1)"
  have 1: "isl (minibatchSampleCount this totalSampleCount) \<longleftrightarrow> ?fatal"
    by (auto simp: minibatchSampleCount_def Let_def)
  have r1: "is_RuntimeError (minibatchSampleCount this totalSampleCount) \<longleftrightarrow> ?fatal"
    if "m_numberOfWorkers this \<noteq> 0"
    using that by (auto simp: minibatchSampleCount_def Let_def)
  have 2: "isl (GetNextSequences loader this totalSampleCount) \<longleftrightarrow>
          isl (minibatchSampleCount this totalSampleCount) \<or>
          (\<exists>ismpl j istr iStreamDesc example data.
             enteredRound loader this totalSampleCount ismpl j =
               Some (istr, iStreamDesc, example, data) \<and>
             isl (streamStep this ismpl istr iStreamDesc example data))"
    (is "?l \<longleftrightarrow> ?m \<or> ?r")
  proof
    assume ?l
    then obtain e where e: "GetNextSequences loader this totalSampleCount = Inl e"
      by (cases "GetNextSequences loader this totalSampleCount") auto
    from GetNextSequences_fails [OF e] show "?m \<or> ?r"
    proof
      assume "minibatchSampleCount this totalSampleCount = Inl e"
      then show ?thesis by simp
    next
      assume "\<exists>ismpl j istr iStreamDesc example data.
            enteredRound loader this totalSampleCount ismpl j =
              Some (istr, iStreamDesc, example, data) \<and>
            streamStep this ismpl istr iStreamDesc example data = Inl e"
      then obtain ismpl j istr iStreamDesc example data where
        "enteredRound loader this totalSampleCount ismpl j =
              Some (istr, iStreamDesc, example, data)"
        "streamStep this ismpl istr iStreamDesc example data = Inl e"
        by blast
      then have "enteredRound loader this totalSampleCount ismpl j =
              Some (istr, iStreamDesc, example, data) \<and>
            isl (streamStep this ismpl istr iStreamDesc example data)"
        by simp
      then have ?r by blast
      then show ?thesis ..
    qed
  next
    assume "?m \<or> ?r"
    then show ?l
    proof
      assume ?m
      then show ?l
        by (cases "minibatchSampleCount this totalSampleCount")
           (simp_all add: GetNextSequences_Inl)
    next
      assume ?r
      then obtain ismpl j istr iStreamDesc example data e where
        "enteredRound loader this totalSampleCount ismpl j =
               Some (istr, iStreamDesc, example, data)"
        "streamStep this ismpl istr iStreamDesc example data = Inl e"
        by (metis isl_def)
      from GetNextSequences_round_fails [OF this] show ?l by simp
    qed
  qed
  have 3: "minibatchSampleCount this totalSampleCount =
            Inr (if m_appendLastMinibatch this \<and>
                    m_epochSize this - m_currEpochSampleCount this
                      \<le> 2 * (totalSampleCount div m_numberOfWorkers this)
                 then (m_epochSize this - m_currEpochSampleCount this, True)
                 else if \<not> m_appendLastMinibatch this \<and>
                    m_epochSize this - m_currEpochSampleCount this
                      \<le> totalSampleCount div m_numberOfWorkers this
                 then (m_epochSize this - m_currEpochSampleCount this, True)
                 else (totalSampleCount div m_numberOfWorkers this, False))"
    if "\<not> isl (minibatchSampleCount this totalSampleCount)"
    using that by (auto simp: minibatchSampleCount_def Let_def split: if_splits)
  have 5: "\<exists>n. minibatchSampleCount this totalSampleCount = Inr (n, m_endOfEpoch sequences) \<and>
               length (m_data sequences) = length (m_inputStreams this) \<and>
               (\<forall>row \<in> set (m_data sequences). length row = unat n \<and> None \<notin> set row) \<and>
               (\<forall>k<unat n. \<exists>dsLoader example data example' data'.
                  sampleLoop loader this k 0 (m_dsLoader this) (m_example this)
                    (replicate (length (m_inputStreams this)) (replicate (unat n) None))
                    = Inr (dsLoader, example, data) \<and>
                  streamLoop this k 0 0 example data = Inr (example', data') \<and>
                  sampleLoop loader this (Suc k) 0 (m_dsLoader this) (m_example this)
                    (replicate (length (m_inputStreams this)) (replicate (unat n) None))
                    = Inr (fst (GetExample loader dsLoader example'),
                           snd (GetExample loader dsLoader example'), data')) \<and>
               sampleLoop loader this (unat n) 0 (m_dsLoader this) (m_example this)
                 (replicate (length (m_inputStreams this)) (replicate (unat n) None))
                 = Inr (m_dsLoader this', m_example this', m_data sequences) \<and>
               (unat n < 2 ^ 31 \<longrightarrow>
                  m_currEpochSampleCount this' = m_currEpochSampleCount this + n) \<and>
               m_epochSize this' = m_epochSize this"
    if ok: "GetNextSequences loader this totalSampleCount = Inr (sequences, this')"
    for sequences this'
  proof -
    from GetNextSequences_unfold [OF ok] obtain n l x where
      n: "minibatchSampleCount this totalSampleCount = Inr (n, m_endOfEpoch sequences)" and
      s: "sampleLoop loader this (unat n) 0 (m_dsLoader this) (m_example this)
            (replicate (length (m_inputStreams this)) (replicate (unat n) None))
            = Inr (l, x, m_data sequences)" and
      t: "this' = this\<lparr>m_dsLoader := l, m_example := x,
                        m_currEpochSampleCount :=
                          m_currEpochSampleCount this + scast (ucast n :: cint)\<rparr>"
      by blast
    have chain: "\<exists>dsLoader example data example' data'.
                  sampleLoop loader this k 0 (m_dsLoader this) (m_example this)
                    (replicate (length (m_inputStreams this)) (replicate (unat n) None))
                    = Inr (dsLoader, example, data) \<and>
                  streamLoop this k 0 0 example data = Inr (example', data') \<and>
                  sampleLoop loader this (Suc k) 0 (m_dsLoader this) (m_example this)
                    (replicate (length (m_inputStreams this)) (replicate (unat n) None))
                    = Inr (fst (GetExample loader dsLoader example'),
                           snd (GetExample loader dsLoader example'), data')"
      if "k < unat n" for k
      using sampleLoop_sample [OF s that] by auto
    have cnt: "m_currEpochSampleCount this' = m_currEpochSampleCount this + n"
      if "unat n < 2 ^ 31"
      using scast_ucast_small [OF that] t by simp
    from t have "m_epochSize this' = m_epochSize this" by simp
    moreover from s t have "sampleLoop loader this (unat n) 0 (m_dsLoader this) (m_example this)
            (replicate (length (m_inputStreams this)) (replicate (unat n) None))
            = Inr (m_dsLoader this', m_example this', m_data sequences)" by simp
    ultimately show ?thesis
      using n GetNextSequences_rows [OF ok n] chain cnt
      by (intro exI [of _ n] conjI allI impI)
  qed
  show ?thesis
    unfolding Let_def
    apply (intro conjI)
    subgoal using 1 by blast
    subgoal using r1 by blast
    subgoal using 1 2 by blast
    subgoal using 1 3 by blast
    subgoal using double_ge_Suc by auto
    subgoal using 5 by blast
    done
qed

theorem GetNextSequences_sample_count_witness:
  "\<not> (2 \<noteq> m_minibatchSize twoSamples \<or> 2 div m_numberOfWorkers twoSamples = 0 \<or>
      (m_appendLastMinibatch twoSamples \<and>
       m_epochSize twoSamples - m_currEpochSampleCount twoSamples
         \<le> 2 * (2 div m_numberOfWorkers twoSamples) \<and>
       m_epochSize twoSamples - m_currEpochSampleCount twoSamples
         \<noteq> 2 div m_numberOfWorkers twoSamples + 1)) \<and>
   minibatchSampleCount twoSamples 2 = Inr (2, True) \<and>
   (\<exists>sequences this'.
      GetNextSequences listLoader twoSamples 2 = Inr (sequences, this') \<and>
      m_endOfEpoch sequences \<and>
      length (m_data sequences) = 2 \<and>
      length (m_data sequences ! 0) = 2 \<and> None \<notin> set (m_data sequences ! 0) \<and>
      length (m_data sequences ! 1) = 2 \<and> None \<notin> set (m_data sequences ! 1) \<and>
      sampleLoop listLoader twoSamples 2 0 (m_dsLoader twoSamples) (m_example twoSamples)
        [[None, None], [None, None]] = Inr (m_dsLoader this', m_example this', m_data sequences) \<and>
      m_currEpochSampleCount this' = 2 \<and> m_epochSize this' = 2)"
proof -
  let ?reader = "twoSamples"
  note t = GetNextSequences_sample_count [of 2 ?reader listLoader, unfolded Let_def]
  have f: "m_minibatchSize ?reader = 2" "m_numberOfWorkers ?reader = 1"
    "m_appendLastMinibatch ?reader = False" "m_epochSize ?reader = 2"
    "m_currEpochSampleCount ?reader = 0" "length (m_inputStreams ?reader) = 2"
    by (simp_all add: twoSamples_def segmentationReader_def)
  have nf: "\<not> (2 \<noteq> m_minibatchSize ?reader \<or> 2 div m_numberOfWorkers ?reader = 0 \<or>
      (m_appendLastMinibatch ?reader \<and>
       m_epochSize ?reader - m_currEpochSampleCount ?reader
         \<le> 2 * (2 div m_numberOfWorkers ?reader) \<and>
       m_epochSize ?reader - m_currEpochSampleCount ?reader
         \<noteq> 2 div m_numberOfWorkers ?reader + 1))"
    by (simp add: f)
  from t nf have "minibatchSampleCount ?reader 2 =
            Inr (if m_appendLastMinibatch ?reader \<and>
                    m_epochSize ?reader - m_currEpochSampleCount ?reader
                      \<le> 2 * (2 div m_numberOfWorkers ?reader)
                 then (m_epochSize ?reader - m_currEpochSampleCount ?reader, True)
                 else if \<not> m_appendLastMinibatch ?reader \<and>
                    m_epochSize ?reader - m_currEpochSampleCount ?reader
                      \<le> 2 div m_numberOfWorkers ?reader
                 then (m_epochSize ?reader - m_currEpochSampleCount ?reader, True)
                 else (2 div m_numberOfWorkers ?reader, False))"
    by blast
  then have 1: "minibatchSampleCount ?reader 2 = Inr (2, True)"
    by (simp add: f)
  from GetNextSequences_twoSamples obtain sequences this' where
    ok: "GetNextSequences listLoader ?reader 2 = Inr (sequences, this')"
    by blast
  from t ok obtain n where
    n: "minibatchSampleCount ?reader 2 = Inr (n, m_endOfEpoch sequences)" and
    l: "length (m_data sequences) = length (m_inputStreams ?reader)" and
    rows: "\<forall>row \<in> set (m_data sequences). length row = unat n \<and> None \<notin> set row" and
    fin: "sampleLoop listLoader ?reader (unat n) 0 (m_dsLoader ?reader) (m_example ?reader)
            (replicate (length (m_inputStreams ?reader)) (replicate (unat n) None))
            = Inr (m_dsLoader this', m_example this', m_data sequences)" and
    cnt: "unat n < 2 ^ 31 \<longrightarrow>
            m_currEpochSampleCount this' = m_currEpochSampleCount ?reader + n" and
    ep: "m_epochSize this' = m_epochSize ?reader"
    by blast
  from n 1 have n2: "n = 2" and e: "m_endOfEpoch sequences" by simp_all
  from l have l2: "length (m_data sequences) = 2" by (simp add: f)
  then have "m_data sequences ! 0 \<in> set (m_data sequences)"
    "m_data sequences ! 1 \<in> set (m_data sequences)"
    by simp_all
  with rows n2 have r: "length (m_data sequences ! 0) = 2" "None \<notin> set (m_data sequences ! 0)"
    "length (m_data sequences ! 1) = 2" "None \<notin> set (m_data sequences ! 1)"
    by auto
  from fin have fin2: "sampleLoop listLoader ?reader 2 0 (m_dsLoader ?reader) (m_example ?reader)
        [[None, None], [None, None]] = Inr (m_dsLoader this', m_example this', m_data sequences)"
    by (simp add: n2 f replicate_numeral)
  from cnt ep have c: "m_currEpochSampleCount this' = 2" "m_epochSize this' = 2"
    by (simp_all add: n2 f)
  from nf 1 ok e l2 r fin2 c show ?thesis by blast
qed

text \<open>
  None of the three conditions of C3 holds for this reader, and \<^verbatim>\<open>GetNextSequences\<close>
  fails: the first label, 7, is not one of the three classes.
\<close>

theorem GetNextSequences_sample_count_counterexample:
  "GetNextSequences listLoader strayLabel 1 = Inl (RuntimeError InvalidChannel) \<and>
   \<not> (1 \<noteq> m_minibatchSize strayLabel \<or> 1 div m_numberOfWorkers strayLabel = 0 \<or>
      (m_appendLastMinibatch strayLabel \<and>
       m_epochSize strayLabel - m_currEpochSampleCount strayLabel
         \<le> 2 * (1 div m_numberOfWorkers strayLabel) \<and>
       m_epochSize strayLabel - m_currEpochSampleCount strayLabel
         \<noteq> 1 div m_numberOfWorkers strayLabel + 1))"
proof -
  have "\<not> (1 \<noteq> m_minibatchSize strayLabel \<or> 1 div m_numberOfWorkers strayLabel = 0 \<or>
      (m_appendLastMinibatch strayLabel \<and>
       m_epochSize strayLabel - m_currEpochSampleCount strayLabel
         \<le> 2 * (1 div m_numberOfWorkers strayLabel) \<and>
       m_epochSize strayLabel - m_currEpochSampleCount strayLabel
         \<noteq> 1 div m_numberOfWorkers strayLabel + 1))"
    by (simp add: strayLabel_def segmentationReader_def)
  with GetNextSequences_strayLabel show ?thesis by blast
qed

end
